theory Spec2Isabelle
  imports Main "HOL-Library.Sublist"
begin

section \<open>Go values: strings, slices, the standard-library calls of main.go\<close>

text \<open>
  A Go string is a sequence of bytes; \<open>len\<close> counts bytes and \<open>s[0]\<close> is a byte.
  \<^typ>\<open>string\<close> (a list of 8-bit \<^typ>\<open>char\<close>) is exactly that.  A Go slice is
  either \<open>nil\<close> or a (possibly empty) sequence; \<open>main.go\<close> tests slices against
  \<open>nil\<close>, so the model keeps the difference: \<open>None\<close> is \<open>nil\<close>, \<open>Some []\<close> is an
  empty slice that is not \<open>nil\<close>.
\<close>

type_synonym 'a slice = "'a list option"

definition elems :: "'a slice \<Rightarrow> 'a list" where
  \<comment> \<open>the elements a \<open>range\<close> loop visits; none for \<open>nil\<close>\<close>
  "elems xs = (case xs of None \<Rightarrow> [] | Some ys \<Rightarrow> ys)"

definition len :: "'a slice \<Rightarrow> nat" where
  "len xs = length (elems xs)"

definition append1 :: "'a slice \<Rightarrow> 'a \<Rightarrow> 'a slice" where
  \<comment> \<open>\<open>append(xs, x)\<close>: the result is never \<open>nil\<close>\<close>
  "append1 xs x = Some (elems xs @ [x])"

subsection \<open>Byte classes\<close>

definition byte_in :: "nat \<Rightarrow> nat \<Rightarrow> char \<Rightarrow> bool" where
  \<comment> \<open>\<open>lo <= c && c <= hi\<close> on bytes\<close>
  "byte_in lo hi c \<longleftrightarrow> lo \<le> of_char c \<and> of_char c \<le> hi"

definition is_lower :: "char \<Rightarrow> bool" where
  \<comment> \<open>the class \<open>[a-z]\<close>\<close>
  "is_lower c \<longleftrightarrow> byte_in 0x61 0x7A c"

definition is_digit :: "char \<Rightarrow> bool" where
  \<comment> \<open>the class \<open>[0-9]\<close>\<close>
  "is_digit c \<longleftrightarrow> byte_in 0x30 0x39 c"

definition is_upper :: "char \<Rightarrow> bool" where
  \<comment> \<open>\<open>c >= 'A' && c <= 'Z'\<close>\<close>
  "is_upper c \<longleftrightarrow> byte_in 0x41 0x5A c"

definition scope_first :: "char \<Rightarrow> bool" where
  \<comment> \<open>the class \<open>[a-z0-9]\<close>\<close>
  "scope_first c \<longleftrightarrow> is_lower c \<or> is_digit c"

definition scope_rest :: "char \<Rightarrow> bool" where
  \<comment> \<open>the class \<open>[a-z0-9./-]\<close>\<close>
  "scope_rest c \<longleftrightarrow> is_lower c \<or> is_digit c \<or> c = CHR ''.'' \<or> c = CHR ''/'' \<or> c = CHR ''-''"

definition not_newline :: "char \<Rightarrow> bool" where
  \<comment> \<open>the class \<open>.\<close> (no \<open>s\<close> flag): every byte but the line feed.  A byte that is
     no valid UTF-8 is read as U+FFFD by Go's matcher and matches \<open>.\<close> too, and no
     multi-byte encoding contains the byte 0x0A.\<close>
  "not_newline c \<longleftrightarrow> c \<noteq> CHR 0x0A"

subsection \<open>strings.TrimSpace\<close>

text \<open>
  \<open>strings.TrimSpace\<close> removes the leading and then the trailing white space, as
  \<open>unicode.IsSpace\<close> defines it on the UTF-8 decoding of the string: the six ASCII
  spaces, U+0085, U+00A0, U+1680, U+2000 to U+200A, U+2028, U+2029, U+202F, U+205F and
  U+3000.  \<open>space_runes\<close> lists their encodings.  UTF-8 is prefix-free and decodes
  backwards as it does forwards, so a white-space rune leads (ends) the string exactly
  when one of these encodings is a prefix (suffix) of it.
\<close>

definition space_runes :: "string list" where
  "space_runes =
    [[CHR 0x09], [CHR 0x0A], [CHR 0x0B], [CHR 0x0C], [CHR 0x0D], [CHR 0x20],
     [CHR 0xC2, CHR 0x85], [CHR 0xC2, CHR 0xA0],
     [CHR 0xE1, CHR 0x9A, CHR 0x80],
     [CHR 0xE2, CHR 0x80, CHR 0x80], [CHR 0xE2, CHR 0x80, CHR 0x81],
     [CHR 0xE2, CHR 0x80, CHR 0x82], [CHR 0xE2, CHR 0x80, CHR 0x83],
     [CHR 0xE2, CHR 0x80, CHR 0x84], [CHR 0xE2, CHR 0x80, CHR 0x85],
     [CHR 0xE2, CHR 0x80, CHR 0x86], [CHR 0xE2, CHR 0x80, CHR 0x87],
     [CHR 0xE2, CHR 0x80, CHR 0x88], [CHR 0xE2, CHR 0x80, CHR 0x89],
     [CHR 0xE2, CHR 0x80, CHR 0x8A],
     [CHR 0xE2, CHR 0x80, CHR 0xA8], [CHR 0xE2, CHR 0x80, CHR 0xA9],
     [CHR 0xE2, CHR 0x80, CHR 0xAF],
     [CHR 0xE2, CHR 0x81, CHR 0x9F],
     [CHR 0xE3, CHR 0x80, CHR 0x80]]"

function strip_left :: "string list \<Rightarrow> string \<Rightarrow> string" where
  \<comment> \<open>drop leading occurrences of the words \<open>ws\<close> until none leads the string\<close>
  "strip_left ws s =
     (case find (\<lambda>w. w \<noteq> [] \<and> prefix w s) ws of
        None \<Rightarrow> s
      | Some w \<Rightarrow> strip_left ws (drop (length w) s))"
  by pat_completeness auto
termination
proof (relation "measure (\<lambda>(ws, s). length s)")
  show "wf (measure (\<lambda>(ws, s). length s))" by simp
next
  fix ws :: "string list" and s w :: string
  assume "find (\<lambda>w. w \<noteq> [] \<and> prefix w s) ws = Some w"
  then have "w \<noteq> []" and "prefix w s"
    by (auto simp: find_Some_iff)
  then have "s \<noteq> []" by auto
  with \<open>w \<noteq> []\<close> show "((ws, drop (length w) s), (ws, s)) \<in> measure (\<lambda>(ws, s). length s)"
    by simp
qed

declare strip_left.simps [simp del]

definition TrimLeft :: "string \<Rightarrow> string" where
  "TrimLeft s = strip_left space_runes s"

definition TrimRight :: "string \<Rightarrow> string" where
  "TrimRight s = rev (strip_left (map rev space_runes) (rev s))"

definition TrimSpace :: "string \<Rightarrow> string" where
  "TrimSpace s = TrimRight (TrimLeft s)"

subsection \<open>strings.HasSuffix, strings.Join, strings.Split, strings.ToLower\<close>

definition HasSuffix :: "string \<Rightarrow> string \<Rightarrow> bool" where
  \<comment> \<open>\<open>len(s) >= len(suffix) && s[len(s)-len(suffix):] == suffix\<close>\<close>
  "HasSuffix s sfx \<longleftrightarrow> length sfx \<le> length s \<and> drop (length s - length sfx) s = sfx"

definition HasPrefix :: "string \<Rightarrow> string \<Rightarrow> bool" where
  \<comment> \<open>\<open>len(s) >= len(prefix) && s[:len(prefix)] == prefix\<close>\<close>
  "HasPrefix s pfx \<longleftrightarrow> length pfx \<le> length s \<and> take (length pfx) s = pfx"

fun Join :: "string list \<Rightarrow> string \<Rightarrow> string" where
  "Join [] sep = []"
| "Join [x] sep = x"
| "Join (x # y # ys) sep = x @ sep @ Join (y # ys) sep"

function Split :: "string \<Rightarrow> char \<Rightarrow> string list" where
  \<comment> \<open>\<open>strings.Split(s, sep)\<close> for a one-byte separator: cut at every separator, so
     the result has one element more than the string has separators\<close>
  "Split s sep =
     (case dropWhile (\<lambda>c. c \<noteq> sep) s of
        [] \<Rightarrow> [s]
      | _ # r \<Rightarrow> takeWhile (\<lambda>c. c \<noteq> sep) s # Split r sep)"
  by pat_completeness auto
termination
proof (relation "measure (\<lambda>(s, sep). length s)")
  show "wf (measure (\<lambda>(s, sep). length s))" by simp
next
  fix s :: string and sep x :: char and r :: string
  assume "dropWhile (\<lambda>c. c \<noteq> sep) s = x # r"
  then have "length (x # r) \<le> length s"
    by (metis length_dropWhile_le)
  then show "((r, sep), (s, sep)) \<in> measure (\<lambda>(s, sep). length s)"
    by simp
qed

declare Split.simps [simp del]

definition lower_byte :: "char \<Rightarrow> char" where
  "lower_byte c = (if is_upper c then char_of (of_char c + (32::nat)) else c)"

definition ToLower :: "string \<Rightarrow> string" where
  \<comment> \<open>\<open>strings.ToLower\<close> on the ASCII letters.  Go also lowers the letters beyond
     ASCII; of those only U+212A and U+0130 become ASCII letters (\<open>k\<close>, \<open>i\<close>), which
     none of the four words \<open>getEnvBool\<close> compares with contains, and a non-empty
     string stays non-empty, so \<open>getEnvBool\<close> cannot tell the difference.\<close>
  "ToLower s = map lower_byte s"

section \<open>The regexp package, as far as the subject pattern needs it\<close>

text \<open>
  The pattern of \<open>LintSubject\<close> uses anchors, literals, byte classes, a greedy and a
  lazy star and a plus on classes, optional groups and capture groups.  Go's matcher
  returns the leftmost match and, among those, the one a backtracking search finds
  first, with the submatches of that search.  \<open>rmatch\<close> is that backtracking search
  in continuation-passing style: \<open>s\<close> is the whole text, \<open>r\<close> what is left of it,
  \<open>c\<close> the submatches so far and \<open>k\<close> what remains to be matched.
\<close>

datatype re =
    Bol                        \<comment> \<open>\<open>^\<close>: at the beginning of the text\<close>
  | Eol                        \<comment> \<open>\<open>$\<close>: at the end of the text\<close>
  | Lit string                 \<comment> \<open>literal bytes\<close>
  | Cls "char \<Rightarrow> bool"         \<comment> \<open>one byte of a class\<close>
  | Star "char \<Rightarrow> bool"        \<comment> \<open>\<open>x*\<close>, longest first\<close>
  | StarLazy "char \<Rightarrow> bool"    \<comment> \<open>\<open>x*?\<close>, shortest first\<close>
  | Plus "char \<Rightarrow> bool"        \<comment> \<open>\<open>x+\<close>, longest first\<close>
  | Opt re                     \<comment> \<open>\<open>(?:r)?\<close>, with \<open>r\<close> first\<close>
  | Grp nat re                 \<comment> \<open>capture group number \<open>n\<close>\<close>
  | Cat re re                  \<comment> \<open>concatenation\<close>

type_synonym caps = "nat \<Rightarrow> string option"

fun star_greedy :: "(char \<Rightarrow> bool) \<Rightarrow> string \<Rightarrow> (string \<Rightarrow> 'a option) \<Rightarrow> 'a option" where
  "star_greedy p [] k = k []"
| "star_greedy p (x # xs) k =
     (if p x then (case star_greedy p xs k of Some m \<Rightarrow> Some m | None \<Rightarrow> k (x # xs))
      else k (x # xs))"

fun star_lazy :: "(char \<Rightarrow> bool) \<Rightarrow> string \<Rightarrow> (string \<Rightarrow> 'a option) \<Rightarrow> 'a option" where
  "star_lazy p [] k = k []"
| "star_lazy p (x # xs) k =
     (case k (x # xs) of Some m \<Rightarrow> Some m
      | None \<Rightarrow> if p x then star_lazy p xs k else None)"

fun rmatch :: "re \<Rightarrow> string \<Rightarrow> string \<Rightarrow> caps \<Rightarrow> (string \<Rightarrow> caps \<Rightarrow> caps option) \<Rightarrow> caps option" where
  "rmatch Bol s r c k = (if length r = length s then k r c else None)"
| "rmatch Eol s r c k = (if r = [] then k r c else None)"
| "rmatch (Lit w) s r c k = (if HasPrefix r w then k (drop (length w) r) c else None)"
| "rmatch (Cls p) s r c k = (case r of [] \<Rightarrow> None | x # xs \<Rightarrow> if p x then k xs c else None)"
| "rmatch (Star p) s r c k = star_greedy p r (\<lambda>r'. k r' c)"
| "rmatch (StarLazy p) s r c k = star_lazy p r (\<lambda>r'. k r' c)"
| "rmatch (Plus p) s r c k =
     (case r of [] \<Rightarrow> None | x # xs \<Rightarrow> if p x then star_greedy p xs (\<lambda>r'. k r' c) else None)"
| "rmatch (Opt e) s r c k = (case rmatch e s r c k of Some m \<Rightarrow> Some m | None \<Rightarrow> k r c)"
| "rmatch (Grp n e) s r c k =
     rmatch e s r c (\<lambda>r' c'. k r' (c'(n \<mapsto> take (length r - length r') r)))"
| "rmatch (Cat e1 e2) s r c k = rmatch e1 s r c (\<lambda>r' c'. rmatch e2 s r' c' k)"

definition match_at :: "re \<Rightarrow> string \<Rightarrow> string \<Rightarrow> caps option" where
  \<comment> \<open>a match that starts where \<open>r\<close> starts; submatch 0 is the whole match\<close>
  "match_at e s r =
     rmatch e s r Map.empty (\<lambda>r' c. Some (c(0 \<mapsto> take (length r - length r') r)))"

fun search :: "re \<Rightarrow> string \<Rightarrow> string \<Rightarrow> caps option" where
  \<comment> \<open>leftmost: try every start, from the left\<close>
  "search e s [] = match_at e s []"
| "search e s (x # xs) =
     (case match_at e s (x # xs) of Some m \<Rightarrow> Some m | None \<Rightarrow> search e s xs)"

fun NumSubexp :: "re \<Rightarrow> nat" where
  "NumSubexp (Opt e) = NumSubexp e"
| "NumSubexp (Grp n e) = Suc (NumSubexp e)"
| "NumSubexp (Cat e1 e2) = NumSubexp e1 + NumSubexp e2"
| "NumSubexp e = 0"

definition FindStringSubmatch :: "re \<Rightarrow> string \<Rightarrow> string slice" where
  \<comment> \<open>\<open>nil\<close> when nothing matches; else the match and the text of every group,
     the empty string for a group that took no part\<close>
  "FindStringSubmatch e s =
     (case search e s s of
        None \<Rightarrow> None
      | Some c \<Rightarrow> Some (map (\<lambda>n. case c n of None \<Rightarrow> [] | Some t \<Rightarrow> t) [0..<Suc (NumSubexp e)]))"

definition subject_re :: re where
  \<comment> \<open>\<^verbatim>\<open>^([a-z]+)(?:\(([a-z0-9][a-z0-9./-]*?)\))?(!)?: (.*)$\<close>\<close>
  "subject_re =
     Cat Bol
    (Cat (Grp 1 (Plus is_lower))
    (Cat (Opt (Cat (Lit ''('') (Cat (Grp 2 (Cat (Cls scope_first) (StarLazy scope_rest))) (Lit '')''))))
    (Cat (Opt (Grp 3 (Lit ''!'')))
    (Cat (Lit '': '')
    (Cat (Grp 4 (Star not_newline))
         Eol)))))"

section \<open>strconv.Atoi, the \<open>%d\<close> verb, os.Getenv\<close>

fun digits_val :: "int \<Rightarrow> string \<Rightarrow> int" where
  \<comment> \<open>\<open>n = n*10 + int(ch - '0')\<close> over the digits\<close>
  "digits_val n [] = n"
| "digits_val n (ch # cs) = digits_val (n * 10 + (int (of_char ch) - 48)) cs"

definition Atoi :: "string \<Rightarrow> int option" where
  \<comment> \<open>\<open>strconv.Atoi\<close> with a 64-bit \<open>int\<close>; \<open>None\<close> is \<open>err != nil\<close>.  An optional sign,
     then one or more decimal digits, and a value an \<open>int\<close> holds; anything else is
     a syntax or a range error.\<close>
  "Atoi s =
     (let neg = HasPrefix s ''-'';
          body = (if HasPrefix s ''-'' \<or> HasPrefix s ''+'' then drop 1 s else s)
      in if body = [] \<or> \<not> list_all is_digit body then None
         else let n = digits_val 0 body; v = (if neg then - n else n)
              in if - (2 ^ 63) \<le> v \<and> v \<le> 2 ^ 63 - 1 then Some v else None)"

fun show_nat :: "nat \<Rightarrow> string" where
  "show_nat n =
     (if n < 10 then [''0123456789'' ! n]
      else show_nat (n div 10) @ [''0123456789'' ! (n mod 10)])"

declare show_nat.simps [simp del]

definition show_int :: "int \<Rightarrow> string" where
  \<comment> \<open>what \<open>fmt.Sprintf("%d", i)\<close> prints\<close>
  "show_int i = (if i < 0 then ''-'' @ show_nat (nat (- i)) else show_nat (nat i))"

type_synonym env = "string \<Rightarrow> string option"

definition Getenv :: "env \<Rightarrow> string \<Rightarrow> string" where
  \<comment> \<open>\<open>os.Getenv\<close>: the empty string for a variable that is not set\<close>
  "Getenv e name = (case e name of None \<Rightarrow> [] | Some v \<Rightarrow> v)"

section \<open>main.go\<close>

record Config =
  AllowedTypes :: "string slice"
  AllowedScopes :: "string slice"
  RequireScope :: bool
  RequireScopeExcept :: "string slice"
  AllowCapitalSubject :: bool
  MaxSubjectLength :: int

text \<open>
  The linter holds a pointer to its configuration; \<open>None\<close> is the \<open>nil\<close> pointer.  The
  receiver of \<open>LintSubject\<close> is taken to be a linter: \<open>main\<close> and the tests build it with
  \<open>&Linter{...}\<close> or \<open>NewLinter\<close>.
\<close>

record Linter =
  Config :: "Config option"

datatype panic = NilDereference

fun contains_loop :: "string list \<Rightarrow> string \<Rightarrow> bool" where
  "contains_loop [] item = False"
| "contains_loop (s # ss) item = (if s = item then True else contains_loop ss item)"

definition contains :: "string slice \<Rightarrow> string \<Rightarrow> bool" where
  "contains slice item = contains_loop (elems slice) item"

fun readEnvList_loop :: "string list \<Rightarrow> string list \<Rightarrow> string list" where
  \<comment> \<open>the \<open>for _, p := range parts\<close> loop on \<open>result\<close>\<close>
  "readEnvList_loop [] result = result"
| "readEnvList_loop (p # ps) result =
     (let trimmed = TrimSpace p
      in readEnvList_loop ps (if trimmed \<noteq> [] then result @ [trimmed] else result))"

definition readEnvList :: "env \<Rightarrow> string \<Rightarrow> string \<Rightarrow> string slice" where
  "readEnvList e name defaultValue =
     (let raw = Getenv e name;
          raw = (if TrimSpace raw = [] then defaultValue else raw)
      in if TrimSpace raw = [] then None
         else Some (readEnvList_loop (Split raw CHR '','') []))"

definition getEnvBool :: "env \<Rightarrow> string \<Rightarrow> bool \<Rightarrow> bool" where
  "getEnvBool e name defaultValue =
     (let val = ToLower (Getenv e name)
      in if val = [] then defaultValue
         else val = ''1'' \<or> val = ''true'' \<or> val = ''yes'' \<or> val = ''on'')"

definition NewLinter :: "env \<Rightarrow> Linter" where
  "NewLinter e =
     (let maxSubject = (case Atoi (Getenv e ''MAX_SUBJECT'') of None \<Rightarrow> 72 | Some n \<Rightarrow> n)
      in \<lparr>Config = Some
           \<lparr>AllowedTypes = readEnvList e ''TYPES''
              ''feat,fix,docs,style,refactor,perf,test,build,ci,chore,revert'',
            AllowedScopes = readEnvList e ''SCOPES'' [],
            RequireScope = getEnvBool e ''REQUIRE_SCOPE'' False,
            RequireScopeExcept = readEnvList e ''REQUIRE_SCOPE_EXCEPT_TYPES'' ''revert'',
            AllowCapitalSubject = getEnvBool e ''ALLOW_CAPITAL_SUBJECT'' False,
            MaxSubjectLength = maxSubject\<rparr>\<rparr>)"

subsection \<open>The violation messages\<close>

definition msg_format :: string where
  "msg_format =
     ''format must be 'type(scope)?: subject' with lowercase type and a space after colon''"

definition msg_type :: "string \<Rightarrow> string slice \<Rightarrow> string" where
  \<comment> \<open>\<open>"type '%s' is not allowed. Allowed: %s"\<close>\<close>
  "msg_type ctype allowed = ''type '' @ [CHR 0x27] @ ctype @ [CHR 0x27]
     @ '' is not allowed. Allowed: '' @ Join (elems allowed) '', ''"

definition msg_scope_required :: string where
  "msg_scope_required = ''scope is required but missing''"

definition msg_scope :: "string \<Rightarrow> string slice \<Rightarrow> string" where
  \<comment> \<open>\<open>"scope '%s' is not in allowed list: %s"\<close>\<close>
  "msg_scope scope allowed = ''scope '' @ [CHR 0x27] @ scope @ [CHR 0x27]
     @ '' is not in allowed list: '' @ Join (elems allowed) '', ''"

definition msg_empty :: string where
  "msg_empty = ''subject must not be empty''"

definition msg_long :: "nat \<Rightarrow> int \<Rightarrow> string" where
  \<comment> \<open>\<open>"subject too long (%d > %d)"\<close>\<close>
  "msg_long n m = ''subject too long ('' @ show_int (int n) @ '' > '' @ show_int m @ '')''"

definition msg_period :: string where
  "msg_period = ''subject must not end with a period''"

definition msg_capital :: string where
  "msg_capital = ''subject should start lowercase (imperative mood)''"

subsection \<open>LintSubject\<close>

text \<open>
  \<open>errors\<close> is the local slice the function appends to, \<open>nil\<close> at first.  On a
  match, \<open>matches\<close> has the five elements \<open>FindStringSubmatch\<close> returns for a
  pattern of four groups.  The first read of \<open>l.Config\<close> comes after the match, so a
  linter without configuration panics there and not before.
\<close>

definition LintSubject :: "Linter \<Rightarrow> string \<Rightarrow> panic + string slice" where
  "LintSubject l subject =
     (let errors = None;
          matches = FindStringSubmatch subject_re subject
      in case matches of
           None \<Rightarrow> Inr (append1 errors msg_format)
         | Some ms \<Rightarrow>
            (case Config l of
               None \<Rightarrow> Inl NilDereference
             | Some cfg \<Rightarrow>
                (let ctype = ms ! 1; scope = ms ! 2; sub = TrimSpace (ms ! 4);
                     errors =
                       (if AllowedTypes cfg \<noteq> None \<and> \<not> contains (AllowedTypes cfg) ctype
                        then append1 errors (msg_type ctype (AllowedTypes cfg)) else errors);
                     errors =
                       (if RequireScope cfg \<and> scope = [] \<and> \<not> contains (RequireScopeExcept cfg) ctype
                        then append1 errors msg_scope_required else errors);
                     errors =
                       (if scope \<noteq> [] \<and> AllowedScopes cfg \<noteq> None \<and> \<not> contains (AllowedScopes cfg) scope
                        then append1 errors (msg_scope scope (AllowedScopes cfg)) else errors);
                     errors =
                       (if TrimSpace sub = [] then append1 errors msg_empty else errors);
                     errors =
                       (if int (length sub) > MaxSubjectLength cfg
                        then append1 errors (msg_long (length sub) (MaxSubjectLength cfg)) else errors);
                     errors =
                       (if HasSuffix sub ''.'' then append1 errors msg_period else errors);
                     errors =
                       (if \<not> AllowCapitalSubject cfg \<and> length sub > 0 \<and> is_upper (sub ! 0)
                        then append1 errors msg_capital else errors)
                 in Inr (if len errors = 0 then None else errors))))"

section \<open>The grammar of a subject\<close>

text \<open>
  The grammar as the specification writes it:
  \<^verbatim>\<open>subject := type ("(" scope ")")? "!"? ": " description\<close>, with \<open>type\<close> one or more
  lower-case letters, \<open>scope\<close> one of \<open>[a-z0-9]\<close> followed by any of \<open>[a-z0-9./-]\<close>, and
  the description running to the end of the text.  A \<open>ParsedSubject\<close> holds the four
  parts (\<open>ps_scope\<close> empty when there is no scope, \<open>ps_remainder\<close> the text after
  \<open>": "\<close> as it stands), \<open>wf_parsed\<close> says that the parts are what the grammar allows
  and \<open>render\<close> writes the subject they make.  A subject matches the grammar when it is
  \<open>render p\<close> for some \<open>p\<close> with \<open>wf_parsed p\<close>.
\<close>

record ParsedSubject =
  ps_type :: string
  ps_scope :: string
  ps_breaking :: bool
  ps_remainder :: string

definition wf_scope :: "string \<Rightarrow> bool" where
  "wf_scope sc \<longleftrightarrow> (case sc of [] \<Rightarrow> False | y # ys \<Rightarrow> scope_first y \<and> list_all scope_rest ys)"

definition wf_parsed :: "ParsedSubject \<Rightarrow> bool" where
  "wf_parsed p \<longleftrightarrow>
     ps_type p \<noteq> [] \<and> list_all is_lower (ps_type p) \<and>
     (ps_scope p = [] \<or> wf_scope (ps_scope p)) \<and>
     list_all not_newline (ps_remainder p)"

definition render :: "ParsedSubject \<Rightarrow> string" where
  "render p =
     ps_type p @ (if ps_scope p = [] then [] else ''('' @ ps_scope p @ '')'')
       @ (if ps_breaking p then ''!'' else []) @ '': '' @ ps_remainder p"

definition description :: "ParsedSubject \<Rightarrow> string" where
  \<comment> \<open>the description of the data model: the remainder, trimmed\<close>
  "description p = TrimSpace (ps_remainder p)"

text \<open>A recursive-descent reading of the same grammar, to decide it.\<close>

definition parse_tail :: "string \<Rightarrow> string \<Rightarrow> string \<Rightarrow> ParsedSubject option" where
  \<comment> \<open>\<open>"!"? ": " description\<close>, after a type and a scope\<close>
  "parse_tail ty sc r =
     (let br = HasPrefix r ''!''; r' = (if br then drop 1 r else r)
      in if HasPrefix r' '': '' \<and> list_all not_newline (drop 2 r')
         then Some \<lparr>ps_type = ty, ps_scope = sc, ps_breaking = br, ps_remainder = drop 2 r'\<rparr>
         else None)"

definition parse_scope :: "string \<Rightarrow> string \<Rightarrow> ParsedSubject option" where
  \<comment> \<open>\<open>("(" scope ")")?\<close> and what follows, after a type\<close>
  "parse_scope ty r =
     (if HasPrefix r ''(''
      then (case drop 1 r of
              [] \<Rightarrow> None
            | y # ys \<Rightarrow>
                if scope_first y \<and> HasPrefix (dropWhile scope_rest ys) '')''
                then parse_tail ty (y # takeWhile scope_rest ys) (drop 1 (dropWhile scope_rest ys))
                else None)
      else parse_tail ty [] r)"

definition parse_subject :: "string \<Rightarrow> ParsedSubject option" where
  "parse_subject s =
     (if takeWhile is_lower s = [] then None
      else parse_scope (takeWhile is_lower s) (dropWhile is_lower s))"

definition submatches :: "string \<Rightarrow> ParsedSubject \<Rightarrow> string list" where
  \<comment> \<open>what \<open>FindStringSubmatch\<close> returns for a subject with these parts\<close>
  "submatches s p = [s, ps_type p, ps_scope p, if ps_breaking p then ''!'' else [], ps_remainder p]"

section \<open>The seven checks\<close>

text \<open>
  The seven checks of \<open>LintSubject\<close> in their order, each with the condition the code
  evaluates (lines 61 to 87 of \<open>main.go\<close>), read on the parts of the parsed subject, and
  with its message.  In these conditions the description is the remainder trimmed once,
  which is what \<open>sub\<close> holds, and an allow-list restricts when it is not \<open>nil\<close>.
  Membership stands for \<open>contains\<close>, \<open>suffix\<close> for \<open>strings.HasSuffix\<close> and an empty
  description for \<open>strings.TrimSpace(sub) == ""\<close>; the lemmas \<open>contains_iff\<close>,
  \<open>HasSuffix_iff\<close> and \<open>TrimSpace_idem\<close> show that they are the same.
\<close>

datatype rule =
    TypeAllowed | ScopeRequired | ScopeAllowed | NotEmpty | MaxLength | NoPeriod | LowerFirst

definition rule_table :: "rule list" where
  "rule_table = [TypeAllowed, ScopeRequired, ScopeAllowed, NotEmpty, MaxLength, NoPeriod, LowerFirst]"

fun violated :: "Config \<Rightarrow> ParsedSubject \<Rightarrow> rule \<Rightarrow> bool" where
  "violated cfg p TypeAllowed \<longleftrightarrow>
     AllowedTypes cfg \<noteq> None \<and> ps_type p \<notin> set (elems (AllowedTypes cfg))"
| "violated cfg p ScopeRequired \<longleftrightarrow>
     RequireScope cfg \<and> ps_scope p = [] \<and> ps_type p \<notin> set (elems (RequireScopeExcept cfg))"
| "violated cfg p ScopeAllowed \<longleftrightarrow>
     ps_scope p \<noteq> [] \<and> AllowedScopes cfg \<noteq> None \<and> ps_scope p \<notin> set (elems (AllowedScopes cfg))"
| "violated cfg p NotEmpty \<longleftrightarrow> description p = []"
| "violated cfg p MaxLength \<longleftrightarrow> int (length (description p)) > MaxSubjectLength cfg"
| "violated cfg p NoPeriod \<longleftrightarrow> suffix ''.'' (description p)"
| "violated cfg p LowerFirst \<longleftrightarrow>
     \<not> AllowCapitalSubject cfg \<and> description p \<noteq> [] \<and> is_upper (hd (description p))"

fun message :: "Config \<Rightarrow> ParsedSubject \<Rightarrow> rule \<Rightarrow> string" where
  "message cfg p TypeAllowed = msg_type (ps_type p) (AllowedTypes cfg)"
| "message cfg p ScopeRequired = msg_scope_required"
| "message cfg p ScopeAllowed = msg_scope (ps_scope p) (AllowedScopes cfg)"
| "message cfg p NotEmpty = msg_empty"
| "message cfg p MaxLength = msg_long (length (description p)) (MaxSubjectLength cfg)"
| "message cfg p NoPeriod = msg_period"
| "message cfg p LowerFirst = msg_capital"

definition violations :: "Config \<Rightarrow> ParsedSubject \<Rightarrow> string list" where
  \<comment> \<open>the messages of the checks whose condition holds, in their order\<close>
  "violations cfg p = map (message cfg p) (filter (violated cfg p) rule_table)"

subsection \<open>The table as the specification writes it\<close>

text \<open>
  Section 4.2 of the specification tabulates the seven checks with these conditions: rows
  1 and 3 ask for a non-empty allow-list, row 4 for an empty trimmed description, and
  rows 5 to 7 read the remainder as it stands, before any trimming; the length that row 5
  prints is the length of that remainder.
\<close>

fun table_violated :: "Config \<Rightarrow> ParsedSubject \<Rightarrow> rule \<Rightarrow> bool" where
  "table_violated cfg p TypeAllowed \<longleftrightarrow>
     elems (AllowedTypes cfg) \<noteq> [] \<and> ps_type p \<notin> set (elems (AllowedTypes cfg))"
| "table_violated cfg p ScopeRequired \<longleftrightarrow>
     RequireScope cfg \<and> ps_scope p = [] \<and> ps_type p \<notin> set (elems (RequireScopeExcept cfg))"
| "table_violated cfg p ScopeAllowed \<longleftrightarrow>
     ps_scope p \<noteq> [] \<and> elems (AllowedScopes cfg) \<noteq> [] \<and>
     ps_scope p \<notin> set (elems (AllowedScopes cfg))"
| "table_violated cfg p NotEmpty \<longleftrightarrow> TrimSpace (ps_remainder p) = []"
| "table_violated cfg p MaxLength \<longleftrightarrow> int (length (ps_remainder p)) > MaxSubjectLength cfg"
| "table_violated cfg p NoPeriod \<longleftrightarrow> suffix ''.'' (ps_remainder p)"
| "table_violated cfg p LowerFirst \<longleftrightarrow>
     \<not> AllowCapitalSubject cfg \<and> ps_remainder p \<noteq> [] \<and> is_upper (hd (ps_remainder p))"

fun table_message :: "Config \<Rightarrow> ParsedSubject \<Rightarrow> rule \<Rightarrow> string" where
  "table_message cfg p TypeAllowed = msg_type (ps_type p) (AllowedTypes cfg)"
| "table_message cfg p ScopeRequired = msg_scope_required"
| "table_message cfg p ScopeAllowed = msg_scope (ps_scope p) (AllowedScopes cfg)"
| "table_message cfg p NotEmpty = msg_empty"
| "table_message cfg p MaxLength = msg_long (length (ps_remainder p)) (MaxSubjectLength cfg)"
| "table_message cfg p NoPeriod = msg_period"
| "table_message cfg p LowerFirst = msg_capital"

definition table_violations :: "Config \<Rightarrow> ParsedSubject \<Rightarrow> string list" where
  \<comment> \<open>the messages of the failing rows, in the table's order\<close>
  "table_violations cfg p = map (table_message cfg p) (filter (table_violated cfg p) rule_table)"

definition compliant_as_stated :: "Config \<Rightarrow> ParsedSubject \<Rightarrow> bool" where
  \<comment> \<open>a compliant subject in the specification's reading: an empty allow-list is no
     restriction, and length, period and first letter are those of the remainder as it
     stands\<close>
  "compliant_as_stated cfg p \<longleftrightarrow>
     (elems (AllowedTypes cfg) = [] \<or> ps_type p \<in> set (elems (AllowedTypes cfg))) \<and>
     (if RequireScope cfg \<and> ps_scope p = []
      then ps_type p \<in> set (elems (RequireScopeExcept cfg)) else True) \<and>
     (ps_scope p = [] \<or> elems (AllowedScopes cfg) = [] \<or>
      ps_scope p \<in> set (elems (AllowedScopes cfg))) \<and>
     TrimSpace (ps_remainder p) \<noteq> [] \<and>
     int (length (ps_remainder p)) \<le> MaxSubjectLength cfg \<and>
     (if suffix ''.'' (ps_remainder p) then False else True) \<and>
     (if AllowCapitalSubject cfg then True
      else (if is_upper (hd (ps_remainder p)) then False else True))"

definition result_of :: "string list \<Rightarrow> string slice" where
  \<comment> \<open>no violation is reported as \<open>nil\<close>\<close>
  "result_of vs = (if vs = [] then None else Some vs)"

definition reports :: "Linter \<Rightarrow> string \<Rightarrow> string \<Rightarrow> bool" where
  \<comment> \<open>\<open>LintSubject\<close> returns, and the message is among the violations it returns\<close>
  "reports l subject m \<longleftrightarrow>
     (case LintSubject l subject of Inl _ \<Rightarrow> False | Inr errs \<Rightarrow> m \<in> set (elems errs))"


definition zero_Config :: Config where
  \<comment> \<open>Go's \<open>Config{}\<close>: every field at its zero value\<close>
  "zero_Config =
     \<lparr>AllowedTypes = None, AllowedScopes = None, RequireScope = False,
      RequireScopeExcept = None, AllowCapitalSubject = False, MaxSubjectLength = 0\<rparr>"

section \<open>Auxiliary definitions for the proofs\<close>

definition upd1 :: "ParsedSubject \<Rightarrow> caps \<Rightarrow> caps" where
  "upd1 p c = c(1 \<mapsto> ps_type p)"

definition upd2 :: "ParsedSubject \<Rightarrow> caps \<Rightarrow> caps" where
  "upd2 p c = (if ps_scope p = [] then c else c(2 \<mapsto> ps_scope p))"

definition upd34 :: "ParsedSubject \<Rightarrow> caps \<Rightarrow> caps" where
  "upd34 p c = (if ps_breaking p then c(3 \<mapsto> ''!'') else c)(4 \<mapsto> ps_remainder p)"

definition add_if :: "bool \<Rightarrow> string \<Rightarrow> string slice \<Rightarrow> string slice" where
  \<comment> \<open>one \<open>if cond { errors = append(errors, m) }\<close> of \<open>LintSubject\<close>\<close>
  "add_if b m e = (if b then append1 e m else e)"

section \<open>Lemmas\<close>

text \<open>
  First the pattern: the backtracking search on \<open>subject_re\<close> is deterministic, and
  \<open>FindStringSubmatch\<close> on it computes what \<open>parse_subject\<close> computes.  Then the
  grammar: \<open>parse_subject\<close> accepts exactly the subjects \<open>render p\<close> of the well-formed
  \<open>p\<close>.  Then \<open>TrimSpace\<close> (trimming twice is trimming once) and \<open>LintSubject\<close> itself,
  whose appends produce the messages of the seven checks in order.
\<close>

subsection \<open>The pattern is deterministic\<close>

lemma HasPrefix_Nil [simp]: "HasPrefix r []"
  by (simp add: HasPrefix_def)

lemma HasPrefix_Cons: "HasPrefix r (x # w) \<longleftrightarrow> (case r of [] \<Rightarrow> False | y # t \<Rightarrow> y = x \<and> HasPrefix t w)"
  by (cases r) (auto simp: HasPrefix_def)

lemma HasPrefix_Cons_Cons [simp]: "HasPrefix (y # t) (x # w) \<longleftrightarrow> y = x \<and> HasPrefix t w"
  by (simp add: HasPrefix_Cons)

lemma HasPrefix_Nil_Cons [simp]: "\<not> HasPrefix [] (x # w)"
  by (simp add: HasPrefix_Cons)

lemma star_greedy_det:
  assumes "\<And>x xs. p x \<Longrightarrow> k (x # xs) = None"
  shows "star_greedy p s k = k (dropWhile p s)"
  using assms by (induction s) (auto split: option.splits)

lemma star_lazy_det:
  assumes "\<And>x xs. p x \<Longrightarrow> k (x # xs) = None"
  shows "star_lazy p s k = k (dropWhile p s)"
  using assms by (induction s) (auto split: option.splits)

lemma take_length_dropWhile: "take (length s - length (dropWhile p s)) s = takeWhile p s"
  by (induction s) (auto simp: Suc_diff_le length_dropWhile_le)

lemma dropWhile_all: "list_all p r \<Longrightarrow> dropWhile p r = []"
  by (simp add: list_all_iff)

lemma re_desc:
  "rmatch (Cat (Grp 4 (Star not_newline)) Eol) s r c k =
     (if list_all not_newline r then k [] (c(4 \<mapsto> r)) else None)"
proof -
  let ?k = "\<lambda>r'. if r' = [] then k r' (c(4 \<mapsto> take (length r - length r') r)) else None"
  have "rmatch (Cat (Grp 4 (Star not_newline)) Eol) s r c k = star_greedy not_newline r ?k"
    by simp
  also have "\<dots> = ?k (dropWhile not_newline r)"
    by (rule star_greedy_det) simp
  also have "\<dots> = (if list_all not_newline r then k [] (c(4 \<mapsto> r)) else None)"
    by (cases "list_all not_newline r") (auto simp: dropWhile_all list_all_iff)
  finally show ?thesis .
qed

lemma rmatch_Cat_Lit:
  "rmatch (Cat (Lit w) e) s r c k = (if HasPrefix r w then rmatch e s (drop (length w) r) c k else None)"
  by simp

lemma re_sep:
  "rmatch (Cat (Lit '': '') (Cat (Grp 4 (Star not_newline)) Eol)) s r c k =
     (if HasPrefix r '': '' \<and> list_all not_newline (drop 2 r) then k [] (c(4 \<mapsto> drop 2 r)) else None)"
  by (simp only: rmatch_Cat_Lit re_desc) (simp add: numeral_2_eq_2)

lemma re_sep_bang: "rmatch (Cat (Lit '': '') (Cat (Grp 4 (Star not_newline)) Eol)) s (CHR ''!'' # r) c k = None"
  by (simp only: re_sep) simp

lemma rmatch_Cat_Opt_Grp_Lit:
  "rmatch (Cat (Opt (Grp n (Lit w))) e) s r c k =
     (case (if HasPrefix r w then rmatch e s (drop (length w) r) (c(n \<mapsto> take (length r - length (drop (length w) r)) r)) k else None)
      of Some m \<Rightarrow> Some m | None \<Rightarrow> rmatch e s r c k)"
  by simp

lemma re_bang:
  "rmatch (Cat (Opt (Grp 3 (Lit ''!''))) (Cat (Lit '': '') (Cat (Grp 4 (Star not_newline)) Eol))) s r c k =
     (if HasPrefix r ''!''
      then rmatch (Cat (Lit '': '') (Cat (Grp 4 (Star not_newline)) Eol)) s (drop 1 r) (c(3 \<mapsto> ''!'')) k
      else rmatch (Cat (Lit '': '') (Cat (Grp 4 (Star not_newline)) Eol)) s r c k)"
proof (cases r)
  case Nil
  then show ?thesis by (simp only: rmatch_Cat_Opt_Grp_Lit) simp
next
  case (Cons x xs)
  show ?thesis
  proof (cases "x = CHR ''!''")
    case True
    with Cons show ?thesis
      by (simp only: rmatch_Cat_Opt_Grp_Lit re_sep_bang) (simp split: option.splits)
  next
    case False
    with Cons show ?thesis
      by (simp only: rmatch_Cat_Opt_Grp_Lit) simp
  qed
qed

lemma rmatch_scope_body_Cons:
  "rmatch (Cat (Grp 2 (Cat (Cls scope_first) (StarLazy scope_rest))) (Lit '')'')) s (y # ys) c k =
     (if scope_first y \<and> HasPrefix (dropWhile scope_rest ys) '')''
      then k (drop 1 (dropWhile scope_rest ys)) (c(2 \<mapsto> y # takeWhile scope_rest ys))
      else None)"
proof -
  let ?k = "\<lambda>r'. if HasPrefix r' '')''
                  then k (drop (length '')'') r') (c(2 \<mapsto> take (Suc (length ys) - length r') (y # ys)))
                  else None"
  have notp: "\<not> scope_rest CHR '')''"
    by (simp add: scope_rest_def is_lower_def is_digit_def byte_in_def)
  have "star_lazy scope_rest ys ?k = ?k (dropWhile scope_rest ys)"
    by (rule star_lazy_det) (use notp in auto)
  moreover have "take (Suc (length ys) - length (dropWhile scope_rest ys)) (y # ys) = y # takeWhile scope_rest ys"
    using take_length_dropWhile [of ys scope_rest]
    by (simp add: Suc_diff_le length_dropWhile_le)
  ultimately have "star_lazy scope_rest ys ?k =
      (if HasPrefix (dropWhile scope_rest ys) '')''
       then k (drop 1 (dropWhile scope_rest ys)) (c(2 \<mapsto> y # takeWhile scope_rest ys))
       else None)"
    by simp
  moreover have "rmatch (Cat (Grp 2 (Cat (Cls scope_first) (StarLazy scope_rest))) (Lit '')'')) s (y # ys) c k =
      (if scope_first y then star_lazy scope_rest ys ?k else None)"
    by simp
  ultimately show ?thesis by simp
qed

lemma rmatch_scope_body_Nil:
  "rmatch (Cat (Grp 2 (Cat (Cls scope_first) (StarLazy scope_rest))) (Lit '')'')) s [] c k = None"
  by simp

lemma re_tail:
  "rmatch (Cat (Opt (Grp 3 (Lit ''!''))) (Cat (Lit '': '') (Cat (Grp 4 (Star not_newline)) Eol))) s r c k =
     (case parse_tail ty sc r of None \<Rightarrow> None | Some p \<Rightarrow> k [] (upd34 p c))"
  by (simp only: re_bang re_sep) (simp add: parse_tail_def upd34_def Let_def)

lemma parse_tail_fields:
  "parse_tail ty sc r = Some p \<Longrightarrow> ps_type p = ty \<and> ps_scope p = sc"
  by (auto simp: parse_tail_def Let_def split: if_splits)

lemma parse_tail_paren: "parse_tail ty sc (CHR ''('' # r) = None"
  by (simp add: parse_tail_def)

lemma parse_tail_lower: "is_lower x \<Longrightarrow> parse_tail ty sc (x # r) = None"
  by (auto simp: parse_tail_def is_lower_def byte_in_def Let_def)

lemma rmatch_Cat_Opt:
  "rmatch (Cat (Opt e1) e2) s r c k =
     (case rmatch e1 s r c (\<lambda>r' c'. rmatch e2 s r' c' k) of Some m \<Rightarrow> Some m
      | None \<Rightarrow> rmatch e2 s r c k)"
  by simp

lemma re_scope:
  "rmatch (Cat (Opt (Cat (Lit ''('') (Cat (Grp 2 (Cat (Cls scope_first) (StarLazy scope_rest))) (Lit '')''))))
            (Cat (Opt (Grp 3 (Lit ''!''))) (Cat (Lit '': '') (Cat (Grp 4 (Star not_newline)) Eol)))) s r c k =
     (case parse_scope ty r of None \<Rightarrow> None | Some p \<Rightarrow> k [] (upd34 p (upd2 p c)))"
  (is "rmatch (Cat (Opt (Cat (Lit ''('') ?body)) ?tail) s r c k = ?rhs")
proof -
  let ?K = "\<lambda>r' c'. rmatch ?tail s r' c' k"
  have tail: "\<And>r c sc. ?K r c = (case parse_tail ty sc r of None \<Rightarrow> None | Some p \<Rightarrow> k [] (upd34 p c))"
    by (rule re_tail)
  have unfold: "rmatch (Cat (Opt (Cat (Lit ''('') ?body)) ?tail) s r c k =
     (case (if HasPrefix r ''('' then rmatch ?body s (drop 1 r) c ?K else None) of
        Some m \<Rightarrow> Some m | None \<Rightarrow> ?K r c)"
    by (simp only: rmatch_Cat_Opt rmatch.simps(10) [of "Lit ''(''"] rmatch.simps(3)) simp
  show ?thesis
  proof (cases "HasPrefix r ''(''")
    case False
    then have "rmatch (Cat (Opt (Cat (Lit ''('') ?body)) ?tail) s r c k = ?K r c"
      unfolding unfold by simp
    also have "\<dots> = (case parse_tail ty [] r of None \<Rightarrow> None | Some p \<Rightarrow> k [] (upd34 p c))"
      by (rule tail)
    also have "\<dots> = ?rhs"
      using False by (auto simp: parse_scope_def upd2_def split: option.splits dest: parse_tail_fields)
    finally show ?thesis .
  next
    case True
    then obtain t where r: "r = CHR ''('' # t"
      by (cases r) auto
    have fallback: "?K r c = None"
      unfolding tail [of r c "[]"] r by (simp add: parse_tail_paren)
    show ?thesis
    proof (cases t)
      case Nil
      with r fallback show ?thesis
        unfolding unfold by (simp add: parse_scope_def rmatch_scope_body_Nil del: rmatch.simps)
    next
      case (Cons y ys)
      show ?thesis
      proof (cases "scope_first y \<and> HasPrefix (dropWhile scope_rest ys) '')''")
        case False
        then have "rmatch ?body s (drop 1 r) c ?K = None"
          unfolding r Cons by (auto simp: rmatch_scope_body_Cons simp del: rmatch.simps)
        moreover from False have "parse_scope ty r = None"
          unfolding r Cons by (auto simp: parse_scope_def)
        ultimately show ?thesis
          using fallback unfolding unfold by (simp del: rmatch.simps)
      next
        case ok: True
        let ?sc = "y # takeWhile scope_rest ys"
        let ?r2 = "drop 1 (dropWhile scope_rest ys)"
        have "rmatch ?body s (drop 1 r) c ?K = ?K ?r2 (c(2 \<mapsto> ?sc))"
          using r Cons ok by (simp add: rmatch_scope_body_Cons del: rmatch.simps)
        also have "\<dots> = (case parse_tail ty ?sc ?r2 of None \<Rightarrow> None | Some p \<Rightarrow> k [] (upd34 p (c(2 \<mapsto> ?sc))))"
          by (rule tail)
        finally have body: "rmatch ?body s (drop 1 r) c ?K =
            (case parse_tail ty ?sc ?r2 of None \<Rightarrow> None | Some p \<Rightarrow> k [] (upd34 p (c(2 \<mapsto> ?sc))))" .
        have ps: "parse_scope ty r = parse_tail ty ?sc ?r2"
          using r Cons ok by (simp add: parse_scope_def)
        show ?thesis
        proof (cases "parse_tail ty ?sc ?r2")
          case None
          with body fallback ps True show ?thesis
            unfolding unfold by (simp del: rmatch.simps)
        next
          case (Some p)
          then have "ps_scope p = ?sc" by (simp add: parse_tail_fields)
          then have "upd2 p c = c(2 \<mapsto> ?sc)" by (simp add: upd2_def)
          with Some body ps True fallback show ?thesis
            unfolding unfold by (simp del: rmatch.simps split: option.splits)
        qed
      qed
    qed
  qed
qed

lemma parse_scope_lower: "is_lower x \<Longrightarrow> parse_scope ty (x # r) = None"
  by (auto simp: parse_scope_def parse_tail_lower) (auto simp: is_lower_def byte_in_def)

lemma parse_scope_type: "parse_scope ty r = Some p \<Longrightarrow> ps_type p = ty"
  by (auto simp: parse_scope_def split: if_splits list.splits dest: parse_tail_fields)

lemma re_type:
  "rmatch (Cat (Grp 1 (Plus is_lower))
          (Cat (Opt (Cat (Lit ''('') (Cat (Grp 2 (Cat (Cls scope_first) (StarLazy scope_rest))) (Lit '')''))))
          (Cat (Opt (Grp 3 (Lit ''!''))) (Cat (Lit '': '') (Cat (Grp 4 (Star not_newline)) Eol))))) s r c k =
     (case parse_subject r of None \<Rightarrow> None | Some p \<Rightarrow> k [] (upd34 p (upd2 p (upd1 p c))))"
  (is "rmatch (Cat (Grp 1 (Plus is_lower)) ?rest) s r c k = ?rhs")
proof (cases r)
  case Nil
  then show ?thesis by (simp add: parse_subject_def)
next
  case (Cons x xs)
  show ?thesis
  proof (cases "is_lower x")
    case False
    with Cons show ?thesis by (simp add: parse_subject_def)
  next
    case True
    let ?ty = "takeWhile is_lower r"
    let ?k = "\<lambda>r'. rmatch ?rest s r' (c(1 \<mapsto> take (Suc (length xs) - length r') (x # xs))) k"
    have rest: "\<And>r c. rmatch ?rest s r c k =
        (case parse_scope ?ty r of None \<Rightarrow> None | Some p \<Rightarrow> k [] (upd34 p (upd2 p c)))"
      by (rule re_scope)
    have "rmatch (Cat (Grp 1 (Plus is_lower)) ?rest) s r c k = star_greedy is_lower xs ?k"
      using Cons True by simp
    also have "\<dots> = ?k (dropWhile is_lower xs)"
      by (rule star_greedy_det) (simp only: rest parse_scope_lower option.case)
    also have "take (Suc (length xs) - length (dropWhile is_lower xs)) (x # xs) = ?ty"
      using take_length_dropWhile [of xs is_lower] Cons True
      by (simp add: Suc_diff_le length_dropWhile_le)
    also have "rmatch ?rest s (dropWhile is_lower xs) (c(1 \<mapsto> ?ty)) k =
        (case parse_scope ?ty (dropWhile is_lower xs) of None \<Rightarrow> None
         | Some p \<Rightarrow> k [] (upd34 p (upd2 p (c(1 \<mapsto> ?ty)))))"
      by (rule rest)
    also have "\<dots> = ?rhs"
      using Cons True
      by (auto simp: parse_subject_def upd1_def split: option.splits dest: parse_scope_type)
    finally show ?thesis .
  qed
qed

lemma match_at_subject_re:
  "match_at subject_re s r =
     (if length r = length s
      then (case parse_subject r of None \<Rightarrow> None
            | Some p \<Rightarrow> Some ((upd34 p (upd2 p (upd1 p Map.empty)))(0 \<mapsto> r)))
      else None)"
  unfolding match_at_def subject_re_def rmatch.simps(10) [of Bol] rmatch.simps(1) re_type
  by (simp split: option.splits)

lemma search_subject_re_short: "length r < length s \<Longrightarrow> search subject_re s r = None"
  by (induction r) (simp_all add: match_at_subject_re)

lemma search_subject_re: "search subject_re s s = match_at subject_re s s"
  by (cases s) (simp_all add: search_subject_re_short split: option.splits)

lemma NumSubexp_subject_re: "NumSubexp subject_re = 4"
  by (simp add: subject_re_def)

lemma upt_5: "[0..<Suc 4] = [0, 1, 2, 3, 4]"
  by (simp add: upt_rec)

lemma FindStringSubmatch_subject_re:
  "FindStringSubmatch subject_re s = map_option (submatches s) (parse_subject s)"
  unfolding FindStringSubmatch_def search_subject_re NumSubexp_subject_re upt_5
  by (auto simp: match_at_subject_re submatches_def upd34_def upd2_def upd1_def
           split: option.splits)

subsection \<open>TrimSpace\<close>

lemma strip_left_no_prefix:
  "w \<in> set ws \<Longrightarrow> w \<noteq> [] \<Longrightarrow> \<not> prefix w (strip_left ws s)"
proof (induction ws s rule: strip_left.induct)
  case (1 ws s)
  show ?case
  proof (cases "find (\<lambda>w. w \<noteq> [] \<and> prefix w s) ws")
    case None
    then have "strip_left ws s = s"
      by (simp add: strip_left.simps)
    moreover from None "1.prems" have "\<not> prefix w s"
      by (auto simp: find_None_iff)
    ultimately show ?thesis by simp
  next
    case (Some v)
    then have "strip_left ws s = strip_left ws (drop (length v) s)"
      by (simp add: strip_left.simps)
    with "1.IH" [OF Some] "1.prems" show ?thesis by simp
  qed
qed

lemma strip_left_fixed:
  "(\<And>w. w \<in> set ws \<Longrightarrow> w \<noteq> [] \<Longrightarrow> \<not> prefix w s) \<Longrightarrow> strip_left ws s = s"
proof -
  assume a: "\<And>w. w \<in> set ws \<Longrightarrow> w \<noteq> [] \<Longrightarrow> \<not> prefix w s"
  then have "find (\<lambda>w. w \<noteq> [] \<and> prefix w s) ws = None"
    by (auto simp: find_None_iff)
  then show ?thesis by (simp add: strip_left.simps)
qed

lemma strip_left_suffix: "suffix (strip_left ws s) s"
proof (induction ws s rule: strip_left.induct)
  case (1 ws s)
  show ?case
  proof (cases "find (\<lambda>w. w \<noteq> [] \<and> prefix w s) ws")
    case None
    then show ?thesis by (simp add: strip_left.simps)
  next
    case (Some v)
    then have "strip_left ws s = strip_left ws (drop (length v) s)"
      by (simp add: strip_left.simps)
    with "1.IH" [OF Some] show ?thesis
      by (metis suffix_drop suffix_order.order_trans)
  qed
qed

lemma strip_left_Nil [simp]: "strip_left ws [] = []"
  using strip_left_suffix [of ws "[]"] by simp

lemma TrimLeft_no_prefix: "w \<in> set space_runes \<Longrightarrow> \<not> prefix w (TrimLeft s)"
proof -
  assume w: "w \<in> set space_runes"
  then have "w \<noteq> []" by (auto simp: space_runes_def)
  with w show ?thesis unfolding TrimLeft_def by (rule strip_left_no_prefix)
qed

lemma TrimRight_prefix: "prefix (TrimRight s) s"
  unfolding TrimRight_def using strip_left_suffix [of "map rev space_runes" "rev s"]
  by (metis rev_rev_ident suffix_to_prefix)

lemma TrimRight_no_suffix: "w \<in> set space_runes \<Longrightarrow> \<not> suffix w (TrimRight s)"
proof -
  assume w: "w \<in> set space_runes"
  then have "w \<noteq> []" by (auto simp: space_runes_def)
  with w have "\<not> prefix (rev w) (strip_left (map rev space_runes) (rev s))"
    by (intro strip_left_no_prefix) auto
  then show ?thesis unfolding TrimRight_def by (simp add: suffix_to_prefix)
qed

lemma TrimSpace_Nil [simp]: "TrimSpace [] = []"
  by (simp add: TrimSpace_def TrimRight_def TrimLeft_def)

lemma TrimSpace_idem: "TrimSpace (TrimSpace s) = TrimSpace s"
proof -
  let ?t = "TrimSpace s"
  have no_pre: "\<not> prefix w ?t" if "w \<in> set space_runes" for w
  proof
    assume "prefix w ?t"
    moreover have "prefix ?t (TrimLeft s)"
      unfolding TrimSpace_def by (rule TrimRight_prefix)
    ultimately have "prefix w (TrimLeft s)" by (rule prefix_order.order_trans)
    with that show False by (simp add: TrimLeft_no_prefix)
  qed
  have no_suf: "\<not> suffix w ?t" if "w \<in> set space_runes" for w
    unfolding TrimSpace_def using that by (rule TrimRight_no_suffix)
  have "TrimLeft ?t = ?t"
    unfolding TrimLeft_def by (rule strip_left_fixed) (use no_pre in blast)
  moreover have "TrimRight ?t = ?t"
  proof -
    have "strip_left (map rev space_runes) (rev ?t) = rev ?t"
      by (rule strip_left_fixed) (use no_suf in \<open>auto simp: suffix_to_prefix\<close>)
    then show ?thesis by (simp add: TrimRight_def)
  qed
  ultimately show ?thesis by (simp add: TrimSpace_def [of ?t])
qed

subsection \<open>The grammar and its parser\<close>

lemma not_lower_paren: "\<not> is_lower CHR ''(''" "\<not> is_lower CHR ''!''" "\<not> is_lower CHR '':''"
  by (simp_all add: is_lower_def byte_in_def)

lemma not_scope_rest_close: "\<not> scope_rest CHR '')''"
  by (simp add: scope_rest_def is_lower_def is_digit_def byte_in_def)

lemma takeWhile_all: "list_all p xs \<Longrightarrow> \<not> p y \<Longrightarrow> takeWhile p (xs @ y # ys) = xs"
  by (induction xs) auto

lemma dropWhile_all_app: "list_all p xs \<Longrightarrow> \<not> p y \<Longrightarrow> dropWhile p (xs @ y # ys) = y # ys"
  by (induction xs) auto

lemma parse_tail_render:
  "list_all not_newline d \<Longrightarrow>
   parse_tail ty sc ((if b then ''!'' else []) @ '': '' @ d) =
     Some \<lparr>ps_type = ty, ps_scope = sc, ps_breaking = b, ps_remainder = d\<rparr>"
  by (simp add: parse_tail_def)

lemma parse_scope_paren:
  assumes "scope_first y" and "list_all scope_rest ys"
  shows "parse_scope ty (CHR ''('' # y # ys @ CHR '')'' # t) = parse_tail ty (y # ys) t"
proof -
  have "takeWhile scope_rest (ys @ CHR '')'' # t) = ys"
    using assms(2) not_scope_rest_close by (rule takeWhile_all)
  moreover have "dropWhile scope_rest (ys @ CHR '')'' # t) = CHR '')'' # t"
    using assms(2) not_scope_rest_close by (rule dropWhile_all_app)
  ultimately show ?thesis
    using assms(1) by (simp add: parse_scope_def)
qed

lemma parse_scope_plain: "\<not> HasPrefix t ''('' \<Longrightarrow> parse_scope ty t = parse_tail ty [] t"
  by (simp add: parse_scope_def)

lemma parse_scope_render:
  assumes "sc = [] \<or> wf_scope sc" and "list_all not_newline d"
  shows "parse_scope ty ((if sc = [] then [] else ''('' @ sc @ '')'') @ (if b then ''!'' else []) @ '': '' @ d) =
     Some \<lparr>ps_type = ty, ps_scope = sc, ps_breaking = b, ps_remainder = d\<rparr>"
proof -
  define t where "t = (if b then ''!'' else []) @ '': '' @ d"
  have tail: "parse_tail ty sc t = Some \<lparr>ps_type = ty, ps_scope = sc, ps_breaking = b, ps_remainder = d\<rparr>"
    unfolding t_def using assms(2) by (rule parse_tail_render)
  show ?thesis
  proof (cases sc)
    case Nil
    have "\<not> HasPrefix t ''(''"
      by (simp add: t_def)
    then have "parse_scope ty t = parse_tail ty [] t"
      by (rule parse_scope_plain)
    with Nil tail show ?thesis by (simp add: t_def)
  next
    case (Cons y ys)
    with assms(1) have "scope_first y" and "list_all scope_rest ys"
      by (simp_all add: wf_scope_def)
    then have "parse_scope ty (CHR ''('' # y # ys @ CHR '')'' # t) = parse_tail ty (y # ys) t"
      by (rule parse_scope_paren)
    with Cons tail show ?thesis by (simp add: t_def)
  qed
qed

lemma parse_subject_render:
  assumes "wf_parsed p"
  shows "parse_subject (render p) = Some p"
proof -
  let ?rest = "(if ps_scope p = [] then [] else ''('' @ ps_scope p @ '')'')
       @ (if ps_breaking p then ''!'' else []) @ '': '' @ ps_remainder p"
  from assms have ty: "ps_type p \<noteq> []" "list_all is_lower (ps_type p)"
    and sc: "ps_scope p = [] \<or> wf_scope (ps_scope p)"
    and d: "list_all not_newline (ps_remainder p)"
    by (simp_all add: wf_parsed_def)
  obtain y ys where rest: "?rest = y # ys" and y: "\<not> is_lower y"
    by (cases "ps_scope p = []"; cases "ps_breaking p") (simp_all add: not_lower_paren)
  have r: "render p = ps_type p @ ?rest"
    by (simp add: render_def)
  have "takeWhile is_lower (render p) = ps_type p"
    unfolding r rest using ty(2) y by (rule takeWhile_all)
  moreover have "dropWhile is_lower (render p) = ?rest"
    unfolding r rest using ty(2) y by (rule dropWhile_all_app)
  ultimately have "parse_subject (render p) = parse_scope (ps_type p) ?rest"
    using ty(1) by (simp add: parse_subject_def)
  also have "\<dots> = Some \<lparr>ps_type = ps_type p, ps_scope = ps_scope p,
       ps_breaking = ps_breaking p, ps_remainder = ps_remainder p\<rparr>"
    using sc d by (rule parse_scope_render)
  finally show ?thesis by simp
qed

lemma HasPrefix_iff: "HasPrefix r w \<longleftrightarrow> (\<exists>t. r = w @ t)"
proof
  assume "HasPrefix r w"
  then have "r = w @ drop (length w) r"
    by (metis HasPrefix_def append_take_drop_id)
  then show "\<exists>t. r = w @ t" ..
next
  assume "\<exists>t. r = w @ t"
  then show "HasPrefix r w" by (auto simp: HasPrefix_def)
qed

lemma parse_tail_sound:
  assumes "parse_tail ty sc r = Some p"
  shows "ps_type p = ty \<and> ps_scope p = sc \<and> list_all not_newline (ps_remainder p) \<and>
         r = (if ps_breaking p then ''!'' else []) @ '': '' @ ps_remainder p"
proof (cases "HasPrefix r ''!''")
  case True
  then obtain t where r: "r = CHR ''!'' # t"
    by (auto simp: HasPrefix_iff)
  with assms have "HasPrefix t '': ''" and nl: "list_all not_newline (drop 2 t)"
    and p: "p = \<lparr>ps_type = ty, ps_scope = sc, ps_breaking = True, ps_remainder = drop 2 t\<rparr>"
    by (auto simp: parse_tail_def split: if_splits)
  then obtain d where "t = CHR '':'' # CHR '' '' # d"
    by (auto simp: HasPrefix_iff)
  with r nl p show ?thesis by simp
next
  case False
  with assms have "HasPrefix r '': ''" and nl: "list_all not_newline (drop 2 r)"
    and p: "p = \<lparr>ps_type = ty, ps_scope = sc, ps_breaking = False, ps_remainder = drop 2 r\<rparr>"
    by (auto simp: parse_tail_def split: if_splits)
  then obtain d where "r = CHR '':'' # CHR '' '' # d"
    by (auto simp: HasPrefix_iff)
  with nl p show ?thesis by simp
qed

lemma list_all_takeWhile: "list_all p (takeWhile p xs)"
  by (induction xs) auto

lemma parse_scope_sound:
  assumes "parse_scope ty r = Some p"
  shows "ps_type p = ty \<and> (ps_scope p = [] \<or> wf_scope (ps_scope p)) \<and>
         list_all not_newline (ps_remainder p) \<and>
         r = (if ps_scope p = [] then [] else ''('' @ ps_scope p @ '')'')
               @ (if ps_breaking p then ''!'' else []) @ '': '' @ ps_remainder p"
proof (cases "HasPrefix r ''(''")
  case False
  with assms have "parse_tail ty [] r = Some p"
    by (simp add: parse_scope_def)
  from parse_tail_sound [OF this] show ?thesis by simp
next
  case True
  then obtain t where r: "r = CHR ''('' # t"
    by (auto simp: HasPrefix_iff)
  with assms obtain y ys where t: "t = y # ys" and y: "scope_first y"
    and close: "HasPrefix (dropWhile scope_rest ys) '')''"
    and tail: "parse_tail ty (y # takeWhile scope_rest ys) (drop 1 (dropWhile scope_rest ys)) = Some p"
    by (auto simp: parse_scope_def split: list.splits if_splits)
  from close obtain u where u: "dropWhile scope_rest ys = CHR '')'' # u"
    by (auto simp: HasPrefix_iff)
  have ys: "ys = takeWhile scope_rest ys @ CHR '')'' # u"
    using takeWhile_dropWhile_id [of scope_rest ys] u by simp
  from parse_tail_sound [OF tail] u
  have p: "ps_type p = ty" "ps_scope p = y # takeWhile scope_rest ys"
    "list_all not_newline (ps_remainder p)"
    "u = (if ps_breaking p then ''!'' else []) @ '': '' @ ps_remainder p"
    by simp_all
  have "wf_scope (ps_scope p)"
    using y by (simp add: p(2) wf_scope_def list_all_takeWhile)
  moreover have "r = ''('' @ ps_scope p @ '')'' @ u"
    using r t ys by (simp add: p(2))
  ultimately show ?thesis using p by simp
qed

lemma parse_subject_sound:
  assumes "parse_subject s = Some p"
  shows "wf_parsed p \<and> render p = s"
proof -
  from assms have ne: "takeWhile is_lower s \<noteq> []"
    and sc: "parse_scope (takeWhile is_lower s) (dropWhile is_lower s) = Some p"
    by (auto simp: parse_subject_def split: if_splits)
  from parse_scope_sound [OF sc]
  have p: "ps_type p = takeWhile is_lower s" "ps_scope p = [] \<or> wf_scope (ps_scope p)"
    "list_all not_newline (ps_remainder p)"
    "dropWhile is_lower s = (if ps_scope p = [] then [] else ''('' @ ps_scope p @ '')'')
               @ (if ps_breaking p then ''!'' else []) @ '': '' @ ps_remainder p"
    by simp_all
  have "wf_parsed p"
    using ne p(2,3) by (simp add: wf_parsed_def p(1) list_all_takeWhile)
  moreover have "render p = takeWhile is_lower s @ dropWhile is_lower s"
    unfolding render_def p(1) p(4) ..
  ultimately show ?thesis by simp
qed

lemma grammar_iff: "parse_subject s = Some p \<longleftrightarrow> wf_parsed p \<and> render p = s"
  using parse_subject_sound parse_subject_render by blast

subsection \<open>LintSubject and the rule table\<close>

lemma contains_iff: "contains sl item \<longleftrightarrow> item \<in> set (elems sl)"
proof -
  have "contains_loop xs item \<longleftrightarrow> item \<in> set xs" for xs
    by (induction xs) auto
  then show ?thesis by (simp add: contains_def)
qed

lemma HasSuffix_iff: "HasSuffix s w \<longleftrightarrow> suffix w s"
proof
  assume "HasSuffix s w"
  then have "s = take (length s - length w) s @ w"
    by (metis HasSuffix_def append_take_drop_id)
  then show "suffix w s" by (rule suffixI)
next
  assume "suffix w s"
  then show "HasSuffix s w" by (auto simp: HasSuffix_def suffix_def)
qed

lemma elems_None [simp]: "elems None = []"
  by (simp add: elems_def)

lemma elems_Some [simp]: "elems (Some xs) = xs"
  by (simp add: elems_def)

lemma elems_add_if: "elems (add_if b m e) = elems e @ (if b then [m] else [])"
  by (simp add: add_if_def append1_def elems_def)

lemma add_if_not_empty: "e \<noteq> Some [] \<Longrightarrow> add_if b m e \<noteq> Some []"
  by (simp add: add_if_def append1_def)

lemma len_result: "e \<noteq> Some [] \<Longrightarrow> (if len e = 0 then None else e) = result_of (elems e)"
  by (cases e) (simp_all add: len_def elems_def result_of_def)

lemma map_filter_Cons:
  "map f (filter P (x # xs)) = (if P x then [f x] else []) @ map f (filter P xs)"
  by simp

lemma violations_chain:
  "violations cfg p =
     (if violated cfg p TypeAllowed then [message cfg p TypeAllowed] else []) @
     (if violated cfg p ScopeRequired then [message cfg p ScopeRequired] else []) @
     (if violated cfg p ScopeAllowed then [message cfg p ScopeAllowed] else []) @
     (if violated cfg p NotEmpty then [message cfg p NotEmpty] else []) @
     (if violated cfg p MaxLength then [message cfg p MaxLength] else []) @
     (if violated cfg p NoPeriod then [message cfg p NoPeriod] else []) @
     (if violated cfg p LowerFirst then [message cfg p LowerFirst] else [])"
  unfolding violations_def rule_table_def map_filter_Cons by simp

lemma LintSubject_match:
  assumes "FindStringSubmatch subject_re s = Some ms"
  shows "LintSubject \<lparr>Config = Some cfg\<rparr> s =
     Inr (let sub = TrimSpace (ms ! 4);
              e = add_if (AllowedTypes cfg \<noteq> None \<and> \<not> contains (AllowedTypes cfg) (ms ! 1))
                    (msg_type (ms ! 1) (AllowedTypes cfg)) None;
              e = add_if (RequireScope cfg \<and> ms ! 2 = [] \<and> \<not> contains (RequireScopeExcept cfg) (ms ! 1))
                    msg_scope_required e;
              e = add_if (ms ! 2 \<noteq> [] \<and> AllowedScopes cfg \<noteq> None \<and> \<not> contains (AllowedScopes cfg) (ms ! 2))
                    (msg_scope (ms ! 2) (AllowedScopes cfg)) e;
              e = add_if (TrimSpace sub = []) msg_empty e;
              e = add_if (int (length sub) > MaxSubjectLength cfg)
                    (msg_long (length sub) (MaxSubjectLength cfg)) e;
              e = add_if (HasSuffix sub ''.'') msg_period e;
              e = add_if (\<not> AllowCapitalSubject cfg \<and> length sub > 0 \<and> is_upper (sub ! 0)) msg_capital e
          in if len e = 0 then None else e)"
  unfolding LintSubject_def add_if_def assms by (simp add: Let_def split del: if_split cong: if_cong)

lemma LintSubject_parsed:
  assumes "parse_subject s = Some p"
  shows "LintSubject \<lparr>Config = Some cfg\<rparr> s = Inr (result_of (violations cfg p))"
proof -
  have m: "FindStringSubmatch subject_re s = Some (submatches s p)"
    by (simp add: FindStringSubmatch_subject_re assms)
  have nth: "submatches s p ! 1 = ps_type p" "submatches s p ! 2 = ps_scope p"
    "submatches s p ! 4 = ps_remainder p"
    by (simp_all add: submatches_def)
  have hd: "(description p \<noteq> [] \<and> is_upper (description p ! 0)) \<longleftrightarrow>
            (description p \<noteq> [] \<and> is_upper (hd (description p)))"
    by (cases "description p") simp_all
  have idem: "TrimSpace (description p) = description p"
    by (simp add: description_def TrimSpace_idem)
  show ?thesis
    unfolding LintSubject_match [OF m] nth Let_def
    by (simp only: len_result add_if_not_empty elems_add_if violations_chain
        option.distinct not_False_eq_True)
       (simp add: description_def [symmetric] idem contains_iff HasSuffix_iff hd
          split del: if_split cong: if_cong)
qed

lemma LintSubject_no_match:
  "parse_subject s = None \<Longrightarrow> LintSubject l s = Inr (Some [msg_format])"
  by (simp add: LintSubject_def FindStringSubmatch_subject_re append1_def)

lemma LintSubject_nil_config:
  "parse_subject s = Some p \<Longrightarrow> LintSubject \<lparr>Config = None\<rparr> s = Inl NilDereference"
  by (simp add: LintSubject_def FindStringSubmatch_subject_re)

lemma parse_subject_upper: "\<not> is_lower x \<Longrightarrow> parse_subject (x # t) = None"
  by (simp add: parse_subject_def)

lemma no_grammar_iff: "parse_subject s = None \<longleftrightarrow> (\<nexists>p. wf_parsed p \<and> render p = s)"
  using grammar_iff [of s] by (cases "parse_subject s") auto

lemma result_of_Nil_iff: "result_of vs = None \<longleftrightarrow> vs = []"
  by (simp add: result_of_def)

lemma violations_Nil_iff: "violations cfg p = [] \<longleftrightarrow> (\<forall>r. \<not> violated cfg p r)"
proof
  assume "violations cfg p = []"
  then have "\<not> violated cfg p r" if "r \<in> set rule_table" for r
    using that by (auto simp: violations_def filter_empty_conv)
  moreover have "r \<in> set rule_table" for r
    by (cases r) (simp_all add: rule_table_def)
  ultimately show "\<forall>r. \<not> violated cfg p r" by blast
next
  assume "\<forall>r. \<not> violated cfg p r"
  then show "violations cfg p = []"
    by (simp add: violations_def filter_empty_conv)
qed

lemma violations_eq_table:
  assumes "AllowedTypes cfg \<noteq> Some []" and "AllowedScopes cfg \<noteq> Some []"
    and "TrimSpace (ps_remainder p) = ps_remainder p"
  shows "violations cfg p = table_violations cfg p"
proof -
  have d: "description p = ps_remainder p"
    using assms(3) by (simp add: description_def)
  have same: "violated cfg p r = table_violated cfg p r" for r
    using assms(1,2)
    by (cases r; cases "AllowedTypes cfg"; cases "AllowedScopes cfg") (simp_all add: d assms(3))
  have msg: "message cfg p r = table_message cfg p r" for r
    by (cases r) (simp_all add: d)
  show ?thesis
    unfolding violations_def table_violations_def by (simp add: same msg cong: filter_cong)
qed

lemma LintSubject_returns:
  "\<exists>errs. LintSubject \<lparr>Config = Some cfg\<rparr> s = Inr errs"
  by (cases "parse_subject s") (simp_all add: LintSubject_no_match LintSubject_parsed)

subsection \<open>What is reported\<close>

lemma elems_result_of [simp]: "elems (result_of vs) = vs"
  by (simp add: result_of_def)

lemma reports_parsed:
  assumes "wf_parsed p"
  shows "reports \<lparr>Config = Some cfg\<rparr> (render p) m \<longleftrightarrow> m \<in> set (violations cfg p)"
proof -
  from assms have "parse_subject (render p) = Some p"
    by (rule parse_subject_render)
  then have "LintSubject \<lparr>Config = Some cfg\<rparr> (render p) = Inr (result_of (violations cfg p))"
    by (rule LintSubject_parsed)
  then show ?thesis by (simp add: reports_def)
qed

lemma in_violations:
  "m \<in> set (violations cfg p) \<longleftrightarrow> (\<exists>r. violated cfg p r \<and> m = message cfg p r)"
proof -
  have "r \<in> set rule_table" for r
    by (cases r) (simp_all add: rule_table_def)
  then show ?thesis by (auto simp: violations_def)
qed

lemmas msg_defs = msg_type_def msg_scope_required_def msg_scope_def msg_empty_def
  msg_long_def msg_period_def msg_capital_def

lemma msg_type_only: "msg_type t a = message cfg p r \<Longrightarrow> r = TypeAllowed"
  by (cases r) (simp_all add: msg_defs)

lemma msg_scope_only: "msg_scope sc a = message cfg p r \<Longrightarrow> r = ScopeAllowed"
  by (cases r) (simp_all add: msg_defs)

lemma msg_empty_only: "msg_empty = message cfg p r \<Longrightarrow> r = NotEmpty"
  by (cases r) (simp_all add: msg_defs)

lemma msg_long_only: "msg_long n m = message cfg p r \<Longrightarrow> r = MaxLength"
  by (cases r) (simp_all add: msg_defs)

lemma msg_period_only: "msg_period = message cfg p r \<Longrightarrow> r = NoPeriod"
  by (cases r) (simp_all add: msg_defs)

lemma msg_capital_only: "msg_capital = message cfg p r \<Longrightarrow> r = LowerFirst"
  by (cases r) (simp_all add: msg_defs)

lemma reports_empty:
  "wf_parsed p \<Longrightarrow>
   reports \<lparr>Config = Some cfg\<rparr> (render p) msg_empty \<longleftrightarrow> violated cfg p NotEmpty"
  unfolding reports_parsed in_violations
  by (metis msg_empty_only message.simps(4))

lemma reports_long:
  "wf_parsed p \<Longrightarrow>
   reports \<lparr>Config = Some cfg\<rparr> (render p) (msg_long (length (description p)) (MaxSubjectLength cfg))
     \<longleftrightarrow> violated cfg p MaxLength"
  unfolding reports_parsed in_violations
  by (metis msg_long_only message.simps(5))

lemma reports_period:
  "wf_parsed p \<Longrightarrow>
   reports \<lparr>Config = Some cfg\<rparr> (render p) msg_period \<longleftrightarrow> violated cfg p NoPeriod"
  unfolding reports_parsed in_violations
  by (metis msg_period_only message.simps(6))

lemma reports_capital:
  "wf_parsed p \<Longrightarrow>
   reports \<lparr>Config = Some cfg\<rparr> (render p) msg_capital \<longleftrightarrow> violated cfg p LowerFirst"
  unfolding reports_parsed in_violations
  by (metis msg_capital_only message.simps(7))

lemma reports_type:
  "wf_parsed p \<Longrightarrow>
   reports \<lparr>Config = Some cfg\<rparr> (render p) (msg_type t a) \<Longrightarrow> violated cfg p TypeAllowed"
  unfolding reports_parsed in_violations
  by (metis msg_type_only)

lemma reports_scope:
  "wf_parsed p \<Longrightarrow>
   reports \<lparr>Config = Some cfg\<rparr> (render p) (msg_scope sc a) \<Longrightarrow> violated cfg p ScopeAllowed"
  unfolding reports_parsed in_violations
  by (metis msg_scope_only)

subsection \<open>Atoi reads what the \<open>%d\<close> verb prints\<close>










subsection \<open>readEnvList\<close>

lemma readEnvList_loop_eq:
  "readEnvList_loop ps acc = acc @ filter (\<lambda>t. t \<noteq> []) (map TrimSpace ps)"
  by (induction ps arbitrary: acc) (simp_all add: Let_def)

lemma readEnvList_blank:
  "TrimSpace (Getenv e name) = [] \<Longrightarrow>
   readEnvList e name d =
     (if TrimSpace d = [] then None
      else Some (filter (\<lambda>t. t \<noteq> []) (map TrimSpace (Split d CHR '',''))))"
  by (simp add: readEnvList_def readEnvList_loop_eq)

lemma readEnvList_set:
  "TrimSpace (Getenv e name) \<noteq> [] \<Longrightarrow>
   readEnvList e name d =
     Some (filter (\<lambda>t. t \<noteq> []) (map TrimSpace (Split (Getenv e name) CHR '','')))"
  by (simp add: readEnvList_def readEnvList_loop_eq)

lemma readEnvList_tokens:
  assumes "readEnvList e name d = Some ts"
  shows "list_all (\<lambda>t. t \<noteq> [] \<and> TrimSpace t = t) ts"
proof -
  from assms obtain raw where "ts = filter (\<lambda>t. t \<noteq> []) (map TrimSpace (Split raw CHR '',''))"
    by (auto simp: readEnvList_def readEnvList_loop_eq Let_def split: if_splits)
  then show ?thesis
    by (auto simp: list_all_iff TrimSpace_idem)
qed

section \<open>The claims\<close>

text \<open>
  \<^bold>\<open>C1.\<close>  The claim: a subject of one of the three merge-commit shapes
  (\<open>Merge pull request #N from X\<close>, \<open>Merge branch 'X'\<close> with or without \<open>into Y\<close>,
  \<open>Merge <hex> into <hex>\<close>) gets no violation from \<open>LintSubject\<close>, whatever the
  configuration.  \<open>LintSubject\<close> has no such case: the pattern asks for a lower-case
  letter first, so every subject that begins with \<open>Merge\<close> fails to match and gets the
  format violation, from every linter.  The repository's own test table expects \<open>nil\<close>
  for its three merge subjects, which are evaluated after the theorem.
\<close>

theorem merge_subject_gets_format_violation:
  "LintSubject l (''Merge'' @ t) = Inr (Some [msg_format])"
proof -
  have "\<not> is_lower CHR ''M''"
    by (simp add: is_lower_def byte_in_def)
  then have "parse_subject (''Merge'' @ t) = None"
    by (simp add: parse_subject_upper)
  then show ?thesis by (rule LintSubject_no_match)
qed

theorem merge_subject_gets_format_violation_witness:
  "LintSubject \<lparr>Config = Some (zero_Config\<lparr>MaxSubjectLength := 72\<rparr>)\<rparr>
      ''Merge pull request #123 from feature/branch'' = Inr (Some [msg_format]) \<and>
   LintSubject \<lparr>Config = Some (zero_Config\<lparr>MaxSubjectLength := 72\<rparr>)\<rparr>
      (''Merge branch 'feature/foo'' @ [CHR 0x27]) = Inr (Some [msg_format]) \<and>
   LintSubject \<lparr>Config = Some (zero_Config\<lparr>MaxSubjectLength := 72\<rparr>)\<rparr>
      ''Merge 9d7b7c932575348d7a2768fc781960128d9b16f2 into 15a00c61be9c996611064f3cb94a388cbe40c3a2''
        = Inr (Some [msg_format])"
  using merge_subject_gets_format_violation [of _ "'' pull request #123 from feature/branch''"]
    merge_subject_gets_format_violation [of _ "'' branch 'feature/foo'' @ [CHR 0x27]"]
    merge_subject_gets_format_violation
      [of _ "'' 9d7b7c932575348d7a2768fc781960128d9b16f2 into 15a00c61be9c996611064f3cb94a388cbe40c3a2''"]
  by simp

text \<open>
  \<^bold>\<open>C2.\<close>  The claim: on a subject that matches the grammar, the length check (5), the
  period check (6) and the upper-case check (7) read the remainder after \<open>": "\<close> before
  any trimming, and only the emptiness check (4) reads a trimmed copy.  The code trims
  first: \<open>sub\<close> is \<open>TrimSpace(matches[4])\<close>, and checks 4 to 7 all read \<open>sub\<close>.  What
  holds: check 4 fires exactly when the trimmed remainder is empty, check 5 exactly when
  the length of the trimmed remainder exceeds \<open>MaxSubjectLength\<close> (and its message
  prints that length), check 6 exactly when the trimmed remainder ends with a period,
  check 7 exactly when capitals are not allowed and the trimmed remainder starts with an
  upper-case ASCII letter.  For a remainder of white space only, check 4 fires, check 5
  compares the length 0 with \<open>MaxSubjectLength\<close>, and checks 6 and 7 do not fire.
\<close>

theorem checks_4_to_7_read_trimmed_remainder:
  assumes "wf_parsed p"
  shows "(reports \<lparr>Config = Some cfg\<rparr> (render p) msg_empty
            \<longleftrightarrow> TrimSpace (ps_remainder p) = []) \<and>
         (reports \<lparr>Config = Some cfg\<rparr> (render p)
              (msg_long (length (TrimSpace (ps_remainder p))) (MaxSubjectLength cfg))
            \<longleftrightarrow> MaxSubjectLength cfg < int (length (TrimSpace (ps_remainder p)))) \<and>
         (reports \<lparr>Config = Some cfg\<rparr> (render p) msg_period
            \<longleftrightarrow> HasSuffix (TrimSpace (ps_remainder p)) ''.'') \<and>
         (reports \<lparr>Config = Some cfg\<rparr> (render p) msg_capital
            \<longleftrightarrow> \<not> AllowCapitalSubject cfg \<and> TrimSpace (ps_remainder p) \<noteq> [] \<and>
                is_upper (hd (TrimSpace (ps_remainder p)))) \<and>
         (TrimSpace (ps_remainder p) = [] \<longrightarrow>
            reports \<lparr>Config = Some cfg\<rparr> (render p) msg_empty \<and>
            (reports \<lparr>Config = Some cfg\<rparr> (render p) (msg_long 0 (MaxSubjectLength cfg))
               \<longleftrightarrow> MaxSubjectLength cfg < 0) \<and>
            \<not> reports \<lparr>Config = Some cfg\<rparr> (render p) msg_period \<and>
            \<not> reports \<lparr>Config = Some cfg\<rparr> (render p) msg_capital)"
proof -
  have d: "TrimSpace (ps_remainder p) = description p"
    by (simp add: description_def)
  have 1: "reports \<lparr>Config = Some cfg\<rparr> (render p) msg_empty \<longleftrightarrow> description p = []"
    using reports_empty [OF assms, of cfg] by simp
  have 2: "reports \<lparr>Config = Some cfg\<rparr> (render p)
              (msg_long (length (description p)) (MaxSubjectLength cfg))
            \<longleftrightarrow> MaxSubjectLength cfg < int (length (description p))"
    using reports_long [OF assms, of cfg] by simp
  have 3: "reports \<lparr>Config = Some cfg\<rparr> (render p) msg_period \<longleftrightarrow> HasSuffix (description p) ''.''"
    using reports_period [OF assms, of cfg] by (simp add: HasSuffix_iff)
  have 4: "reports \<lparr>Config = Some cfg\<rparr> (render p) msg_capital
            \<longleftrightarrow> \<not> AllowCapitalSubject cfg \<and> description p \<noteq> [] \<and> is_upper (hd (description p))"
    using reports_capital [OF assms, of cfg] by simp
  have 5: "\<not> HasSuffix [] ''.''"
    by (simp add: HasSuffix_def)
  show ?thesis
    unfolding d using 1 2 3 4 5 by (cases "description p = []") simp_all
qed

theorem checks_4_to_7_read_trimmed_remainder_witness:
  "wf_parsed \<lparr>ps_type = ''fix'', ps_scope = [], ps_breaking = False, ps_remainder = ''   ''\<rparr> \<and>
   reports \<lparr>Config = Some (zero_Config\<lparr>MaxSubjectLength := 2\<rparr>)\<rparr> ''fix:    '' msg_empty \<and>
   \<not> reports \<lparr>Config = Some (zero_Config\<lparr>MaxSubjectLength := 2\<rparr>)\<rparr> ''fix:    '' (msg_long 0 2)"
proof -
  let ?p = "\<lparr>ps_type = ''fix'', ps_scope = [], ps_breaking = False, ps_remainder = ''   ''\<rparr>"
  let ?cfg = "zero_Config\<lparr>MaxSubjectLength := 2\<rparr>"
  have wf: "wf_parsed ?p"
    by code_simp
  have r: "render ?p = ''fix:    ''"
    by code_simp
  have t: "TrimSpace (ps_remainder ?p) = []"
    by code_simp
  have m: "MaxSubjectLength ?cfg = 2"
    by (simp add: zero_Config_def)
  from checks_4_to_7_read_trimmed_remainder [OF wf, of ?cfg] wf show ?thesis
    unfolding r t m by simp
qed

text \<open>
  Three runs where the untrimmed remainder and the code part ways.  The remainder of
  \<open>"fix:    "\<close> is three spaces, longer than a maximum of 2, and the only violation is
  the empty subject.  The remainder of \<open>"fix: add. "\<close> ends with a space and the period
  violation is reported.  The remainder of \<open>"fix:  Add"\<close> starts with a space and the
  upper-case violation is reported.
\<close>

theorem remainder_is_trimmed_before_checks:
  "FindStringSubmatch subject_re ''fix:    '' = Some [''fix:    '', ''fix'', [], [], ''   ''] \<and>
   MaxSubjectLength (zero_Config\<lparr>MaxSubjectLength := 2\<rparr>) < int (length ''   '') \<and>
   LintSubject \<lparr>Config = Some (zero_Config\<lparr>MaxSubjectLength := 2\<rparr>)\<rparr> ''fix:    ''
     = Inr (Some [''subject must not be empty'']) \<and>
   FindStringSubmatch subject_re ''fix: add. '' = Some [''fix: add. '', ''fix'', [], [], ''add. ''] \<and>
   \<not> HasSuffix ''add. '' ''.'' \<and>
   LintSubject \<lparr>Config = Some (zero_Config\<lparr>MaxSubjectLength := 72\<rparr>)\<rparr> ''fix: add. ''
     = Inr (Some [''subject must not end with a period'']) \<and>
   FindStringSubmatch subject_re ''fix:  Add'' = Some [''fix:  Add'', ''fix'', [], [], '' Add''] \<and>
   \<not> is_upper ('' Add'' ! 0) \<and>
   LintSubject \<lparr>Config = Some (zero_Config\<lparr>MaxSubjectLength := 72\<rparr>)\<rparr> ''fix:  Add''
     = Inr (Some [''subject should start lowercase (imperative mood)''])"
  by code_simp

text \<open>
  \<^bold>\<open>C3.\<close>  The claim: with \<open>AllowedTypes\<close> empty or absent check 1 never produces a
  violation, and with \<open>AllowedScopes\<close> empty or absent check 3 never does.  The code
  guards both checks with \<open>!= nil\<close>, so the claim holds for an absent (\<open>nil\<close>) list
  and fails for a list that is set and empty: such a list contains nothing, and the
  check rejects every type (every scope that is given).  What holds, for every subject
  that matches the grammar: with \<open>AllowedTypes = nil\<close> no type violation is reported,
  with \<open>AllowedScopes = nil\<close> no scope-list violation is reported; with an empty
  \<open>AllowedTypes\<close> that is not \<open>nil\<close> the type violation is reported, and with an empty
  \<open>AllowedScopes\<close> that is not \<open>nil\<close> the scope-list violation is reported whenever the
  subject has a scope.
\<close>

theorem nil_allow_lists_skip_checks:
  assumes "wf_parsed p"
  shows "(AllowedTypes cfg = None \<longrightarrow> \<not> reports \<lparr>Config = Some cfg\<rparr> (render p) (msg_type t a)) \<and>
         (AllowedScopes cfg = None \<longrightarrow> \<not> reports \<lparr>Config = Some cfg\<rparr> (render p) (msg_scope sc b)) \<and>
         (AllowedTypes cfg = Some [] \<longrightarrow>
            reports \<lparr>Config = Some cfg\<rparr> (render p) (msg_type (ps_type p) (Some []))) \<and>
         (AllowedScopes cfg = Some [] \<and> ps_scope p \<noteq> [] \<longrightarrow>
            reports \<lparr>Config = Some cfg\<rparr> (render p) (msg_scope (ps_scope p) (Some [])))"
proof -
  have "\<not> reports \<lparr>Config = Some cfg\<rparr> (render p) (msg_type t a)" if "AllowedTypes cfg = None"
    using reports_type [OF assms, of cfg t a] that by auto
  moreover have "\<not> reports \<lparr>Config = Some cfg\<rparr> (render p) (msg_scope sc b)" if "AllowedScopes cfg = None"
    using reports_scope [OF assms, of cfg sc b] that by auto
  moreover have "reports \<lparr>Config = Some cfg\<rparr> (render p) (msg_type (ps_type p) (Some []))"
    if "AllowedTypes cfg = Some []"
  proof -
    from that have "violated cfg p TypeAllowed" by simp
    then have "message cfg p TypeAllowed \<in> set (violations cfg p)"
      unfolding in_violations by blast
    with that show ?thesis by (simp add: reports_parsed [OF assms])
  qed
  moreover have "reports \<lparr>Config = Some cfg\<rparr> (render p) (msg_scope (ps_scope p) (Some []))"
    if "AllowedScopes cfg = Some []" and "ps_scope p \<noteq> []"
  proof -
    from that have "violated cfg p ScopeAllowed" by simp
    then have "message cfg p ScopeAllowed \<in> set (violations cfg p)"
      unfolding in_violations by blast
    with that show ?thesis by (simp add: reports_parsed [OF assms])
  qed
  ultimately show ?thesis by blast
qed

theorem nil_allow_lists_skip_checks_witness:
  "wf_parsed \<lparr>ps_type = ''anything'', ps_scope = ''zzz'', ps_breaking = False, ps_remainder = ''add''\<rparr> \<and>
   \<not> reports \<lparr>Config = Some (zero_Config\<lparr>MaxSubjectLength := 72\<rparr>)\<rparr> ''anything(zzz): add''
       (msg_type ''anything'' None) \<and>
   \<not> reports \<lparr>Config = Some (zero_Config\<lparr>MaxSubjectLength := 72\<rparr>)\<rparr> ''anything(zzz): add''
       (msg_scope ''zzz'' None) \<and>
   reports \<lparr>Config = Some (zero_Config\<lparr>AllowedTypes := Some [], AllowedScopes := Some [],
       MaxSubjectLength := 72\<rparr>)\<rparr> ''anything(zzz): add'' (msg_type ''anything'' (Some [])) \<and>
   reports \<lparr>Config = Some (zero_Config\<lparr>AllowedTypes := Some [], AllowedScopes := Some [],
       MaxSubjectLength := 72\<rparr>)\<rparr> ''anything(zzz): add'' (msg_scope ''zzz'' (Some []))"
proof -
  let ?p = "\<lparr>ps_type = ''anything'', ps_scope = ''zzz'', ps_breaking = False, ps_remainder = ''add''\<rparr>"
  let ?nil = "zero_Config\<lparr>MaxSubjectLength := 72\<rparr>"
  let ?empty = "zero_Config\<lparr>AllowedTypes := Some [], AllowedScopes := Some [], MaxSubjectLength := 72\<rparr>"
  have wf: "wf_parsed ?p"
    by code_simp
  have r: "render ?p = ''anything(zzz): add''"
    by code_simp
  have n: "AllowedTypes ?nil = None" "AllowedScopes ?nil = None"
    by (simp_all add: zero_Config_def)
  have e: "AllowedTypes ?empty = Some []" "AllowedScopes ?empty = Some []"
    by (simp_all add: zero_Config_def)
  from nil_allow_lists_skip_checks [OF wf, of ?nil "''anything''" None "''zzz''" None]
    nil_allow_lists_skip_checks [OF wf, of ?empty]
    wf n e
  show ?thesis unfolding r by simp
qed

text \<open>
  With both allow-lists empty and not \<open>nil\<close>, \<open>"feat(api): add"\<close> gets the type and
  the scope-list violation, each with an empty list of allowed values.
\<close>

theorem empty_allow_lists_reject:
  "LintSubject \<lparr>Config = Some (zero_Config\<lparr>AllowedTypes := Some [], AllowedScopes := Some [],
       MaxSubjectLength := 72\<rparr>)\<rparr> ''feat(api): add''
     = Inr (Some [''type 'feat' is not allowed. Allowed: '',
                  ''scope 'api' is not in allowed list: ''])"
  by code_simp

text \<open>
  \<^bold>\<open>C4.\<close>  A subject that does not match the grammar (it is \<open>render p\<close> for no
  well-formed \<open>p\<close>) gets exactly one violation, the format message, and no rule is
  evaluated: the result is the same for every linter, also for one whose configuration
  pointer is \<open>nil\<close>, which any rule would dereference.  The code recognises no merge
  pattern, so the statement needs no exception for one.
\<close>

theorem no_grammar_single_format_violation:
  assumes "\<nexists>p. wf_parsed p \<and> render p = s"
  shows "LintSubject l s = Inr (Some [msg_format])"
  using assms by (simp add: LintSubject_no_match no_grammar_iff)

theorem no_grammar_single_format_violation_witness:
  "(\<nexists>p. wf_parsed p \<and> render p = ''missing colon'') \<and>
   LintSubject \<lparr>Config = None\<rparr> ''missing colon'' = Inr (Some [msg_format])"
proof -
  have "parse_subject ''missing colon'' = None"
    by code_simp
  then have h: "\<nexists>p. wf_parsed p \<and> render p = ''missing colon''"
    by (simp add: no_grammar_iff)
  with no_grammar_single_format_violation [OF h] show ?thesis by simp
qed

text \<open>
  \<^bold>\<open>C5.\<close>  The claim: for a subject that matches the grammar and every configuration,
  \<open>LintSubject\<close> lists exactly the failing checks among 1 to 7 of the table, each with
  its message, in the table's order, no check cutting another short, and an empty or
  \<open>nil\<close> result means compliance.  Order, independence and the \<open>nil\<close> result are as
  claimed; the conditions are not all those the table writes.  The code applies checks 1
  and 3 whenever the allow-list is not \<open>nil\<close>, an empty one included, and checks 5 to 7
  read the trimmed remainder, whose length check 5 prints.  What holds: \<open>LintSubject\<close>
  returns the messages of exactly the checks whose condition, as \<open>violated\<close> has it,
  holds, in the order 1 to 7, each listed on its own condition alone; the result is
  \<open>nil\<close> when none holds, and only then.  Where no allow-list is empty without being
  \<open>nil\<close> and the remainder has no white space at either end, these are the failing
  rows of the table as it is written.
\<close>

theorem LintSubject_lists_violated_rules_in_order:
  assumes "wf_parsed p"
  shows "LintSubject \<lparr>Config = Some cfg\<rparr> (render p) = Inr (result_of (violations cfg p)) \<and>
         (LintSubject \<lparr>Config = Some cfg\<rparr> (render p) = Inr None \<longleftrightarrow> (\<forall>r. \<not> violated cfg p r)) \<and>
         (AllowedTypes cfg \<noteq> Some [] \<and> AllowedScopes cfg \<noteq> Some [] \<and>
          TrimSpace (ps_remainder p) = ps_remainder p \<longrightarrow>
            LintSubject \<lparr>Config = Some cfg\<rparr> (render p) = Inr (result_of (table_violations cfg p)))"
proof -
  from assms have "parse_subject (render p) = Some p"
    by (rule parse_subject_render)
  then have run: "LintSubject \<lparr>Config = Some cfg\<rparr> (render p) = Inr (result_of (violations cfg p))"
    by (rule LintSubject_parsed)
  then have "LintSubject \<lparr>Config = Some cfg\<rparr> (render p) = Inr None \<longleftrightarrow> (\<forall>r. \<not> violated cfg p r)"
    by (simp add: result_of_Nil_iff violations_Nil_iff)
  moreover have "LintSubject \<lparr>Config = Some cfg\<rparr> (render p) = Inr (result_of (table_violations cfg p))"
    if "AllowedTypes cfg \<noteq> Some []" "AllowedScopes cfg \<noteq> Some []"
      "TrimSpace (ps_remainder p) = ps_remainder p"
    using run violations_eq_table [OF that] by simp
  ultimately show ?thesis using run by blast
qed

theorem LintSubject_lists_violated_rules_in_order_witness:
  "wf_parsed \<lparr>ps_type = ''fix'', ps_scope = ''core'', ps_breaking = False, ps_remainder = ''Abc.''\<rparr> \<and>
   LintSubject
     \<lparr>Config = Some (zero_Config\<lparr>AllowedTypes := Some [''feat''], AllowedScopes := Some [''api''],
        MaxSubjectLength := 3\<rparr>)\<rparr>
     ''fix(core): Abc.'' =
   Inr (Some [''type 'fix' is not allowed. Allowed: feat'',
              ''scope 'core' is not in allowed list: api'',
              ''subject too long (4 > 3)'',
              ''subject must not end with a period'',
              ''subject should start lowercase (imperative mood)'']) \<and>
   TrimSpace ''Abc.'' = ''Abc.'' \<and>
   LintSubject
     \<lparr>Config = Some (zero_Config\<lparr>AllowedTypes := Some [''feat''], AllowedScopes := Some [''api''],
        MaxSubjectLength := 3\<rparr>)\<rparr>
     ''fix(core): Abc.'' =
   Inr (result_of (table_violations
     (zero_Config\<lparr>AllowedTypes := Some [''feat''], AllowedScopes := Some [''api''],
        MaxSubjectLength := 3\<rparr>)
     \<lparr>ps_type = ''fix'', ps_scope = ''core'', ps_breaking = False, ps_remainder = ''Abc.''\<rparr>))"
proof -
  let ?p = "\<lparr>ps_type = ''fix'', ps_scope = ''core'', ps_breaking = False, ps_remainder = ''Abc.''\<rparr>"
  let ?cfg = "zero_Config\<lparr>AllowedTypes := Some [''feat''], AllowedScopes := Some [''api''],
        MaxSubjectLength := 3\<rparr>"
  have wf: "wf_parsed ?p"
    by code_simp
  have r: "render ?p = ''fix(core): Abc.''"
    by code_simp
  have v: "result_of (violations ?cfg ?p) =
     Some [''type 'fix' is not allowed. Allowed: feat'',
              ''scope 'core' is not in allowed list: api'',
              ''subject too long (4 > 3)'',
              ''subject must not end with a period'',
              ''subject should start lowercase (imperative mood)'']"
    by code_simp
  have t: "TrimSpace ''Abc.'' = ''Abc.''"
    by code_simp
  have l: "AllowedTypes ?cfg \<noteq> Some []" "AllowedScopes ?cfg \<noteq> Some []"
    by (simp_all add: zero_Config_def)
  have t': "TrimSpace (ps_remainder ?p) = ps_remainder ?p"
    using t by simp
  note run = LintSubject_lists_violated_rules_in_order [OF wf, of ?cfg, unfolded r]
  from run have a: "LintSubject \<lparr>Config = Some ?cfg\<rparr> ''fix(core): Abc.'' = Inr (result_of (violations ?cfg ?p))"
    by (rule conjunct1)
  from run l t' have b: "LintSubject \<lparr>Config = Some ?cfg\<rparr> ''fix(core): Abc.'' =
      Inr (result_of (table_violations ?cfg ?p))"
    by blast
  show ?thesis
  proof (intro conjI)
    show "wf_parsed ?p" by (rule wf)
    show "LintSubject \<lparr>Config = Some ?cfg\<rparr> ''fix(core): Abc.'' =
       Inr (Some [''type 'fix' is not allowed. Allowed: feat'',
              ''scope 'core' is not in allowed list: api'',
              ''subject too long (4 > 3)'',
              ''subject must not end with a period'',
              ''subject should start lowercase (imperative mood)''])"
      using a unfolding v .
    show "TrimSpace ''Abc.'' = ''Abc.''" by (rule t)
    show "LintSubject \<lparr>Config = Some ?cfg\<rparr> ''fix(core): Abc.'' =
       Inr (result_of (table_violations ?cfg ?p))"
      by (rule b)
  qed
qed

text \<open>
  Two runs where no row of the table as written fails and the code reports a violation:
  \<open>"fix:  Add"\<close>, whose remainder starts with a space, and \<open>"feat: add"\<close> under an
  \<open>AllowedTypes\<close> that is empty and not \<open>nil\<close>.
\<close>

theorem table_as_written_differs:
  "wf_parsed \<lparr>ps_type = ''fix'', ps_scope = [], ps_breaking = False, ps_remainder = '' Add''\<rparr> \<and>
   render \<lparr>ps_type = ''fix'', ps_scope = [], ps_breaking = False, ps_remainder = '' Add''\<rparr>
     = ''fix:  Add'' \<and>
   table_violations (zero_Config\<lparr>MaxSubjectLength := 72\<rparr>)
     \<lparr>ps_type = ''fix'', ps_scope = [], ps_breaking = False, ps_remainder = '' Add''\<rparr> = [] \<and>
   LintSubject \<lparr>Config = Some (zero_Config\<lparr>MaxSubjectLength := 72\<rparr>)\<rparr> ''fix:  Add''
     = Inr (Some [''subject should start lowercase (imperative mood)'']) \<and>
   wf_parsed \<lparr>ps_type = ''feat'', ps_scope = [], ps_breaking = False, ps_remainder = ''add''\<rparr> \<and>
   render \<lparr>ps_type = ''feat'', ps_scope = [], ps_breaking = False, ps_remainder = ''add''\<rparr>
     = ''feat: add'' \<and>
   table_violations (zero_Config\<lparr>AllowedTypes := Some [], MaxSubjectLength := 72\<rparr>)
     \<lparr>ps_type = ''feat'', ps_scope = [], ps_breaking = False, ps_remainder = ''add''\<rparr> = [] \<and>
   LintSubject \<lparr>Config = Some (zero_Config\<lparr>AllowedTypes := Some [], MaxSubjectLength := 72\<rparr>)\<rparr>
     ''feat: add'' = Inr (Some [''type 'feat' is not allowed. Allowed: ''])"
  by code_simp




text \<open>
  \<^bold>\<open>C7.\<close>  The claim: \<open>readEnvList\<close> returns \<open>nil\<close> or a non-empty list of trimmed,
  non-empty tokens.  A value that holds separators and white space only, such as
  \<open>","\<close>, is not blank, so it is split; every token is dropped and the result is the
  empty list that is not \<open>nil\<close>.  A linter configured so rejects every type, here
  \<open>feat\<close>, and names no allowed type in the message.
\<close>

theorem readEnvList_separators_only:
  "readEnvList (Map.empty(''TYPES'' \<mapsto> '','')) ''TYPES'' ''feat,fix'' = Some [] \<and>
   LintSubject (NewLinter (Map.empty(''TYPES'' \<mapsto> '',''))) ''feat: add new feature''
     = Inr (Some [''type 'feat' is not allowed. Allowed: ''])"
  by code_simp

text \<open>
  \<^bold>\<open>C8.\<close>  The claim: a subject that matches the grammar, with a type in the
  allow-list or an unrestricted list, a scope that meets the scope requirement and the
  scope allow-list, and a description that is not empty, within \<open>MaxSubjectLength\<close>,
  not ended by a period and not started by an upper-case ASCII letter when that is
  disallowed, gets no violation.  With the specification's reading of these conditions
  (an empty allow-list counts as unrestricted, the description is the remainder as it
  stands) the claim fails.  What holds: the subject gets \<open>nil\<close> when its type is in
  \<open>AllowedTypes\<close> or that list is \<open>nil\<close>, its scope is there when one is required (or
  its type is exempt) and is in \<open>AllowedScopes\<close> or that list is \<open>nil\<close>, and its
  trimmed remainder is not empty, not longer than \<open>MaxSubjectLength\<close>, does not end
  with a period and does not start with an upper-case ASCII letter unless capitals are
  allowed.
\<close>

theorem compliant_subject_no_violation:
  assumes "wf_parsed p"
    and "AllowedTypes cfg = None \<or> ps_type p \<in> set (elems (AllowedTypes cfg))"
    and "\<not> RequireScope cfg \<or> ps_scope p \<noteq> [] \<or> ps_type p \<in> set (elems (RequireScopeExcept cfg))"
    and "ps_scope p = [] \<or> AllowedScopes cfg = None \<or> ps_scope p \<in> set (elems (AllowedScopes cfg))"
    and "description p \<noteq> []"
    and "int (length (description p)) \<le> MaxSubjectLength cfg"
    and "\<not> suffix ''.'' (description p)"
    and "AllowCapitalSubject cfg \<or> \<not> is_upper (hd (description p))"
  shows "LintSubject \<lparr>Config = Some cfg\<rparr> (render p) = Inr None"
proof -
  from assms(1) have "parse_subject (render p) = Some p"
    by (rule parse_subject_render)
  then have "LintSubject \<lparr>Config = Some cfg\<rparr> (render p) = Inr (result_of (violations cfg p))"
    by (rule LintSubject_parsed)
  moreover have "\<not> violated cfg p r" for r
    using assms(2-) by (cases r) auto
  then have "violations cfg p = []"
    by (simp add: violations_Nil_iff)
  ultimately show ?thesis by (simp add: result_of_def)
qed

theorem compliant_subject_no_violation_witness:
  "wf_parsed \<lparr>ps_type = ''feat'', ps_scope = [], ps_breaking = False, ps_remainder = ''add new feature''\<rparr> \<and>
   LintSubject \<lparr>Config = Some (zero_Config\<lparr>AllowedTypes := Some [''feat''], MaxSubjectLength := 50\<rparr>)\<rparr>
     ''feat: add new feature'' = Inr None"
proof -
  let ?p = "\<lparr>ps_type = ''feat'', ps_scope = [], ps_breaking = False, ps_remainder = ''add new feature''\<rparr>"
  let ?cfg = "zero_Config\<lparr>AllowedTypes := Some [''feat''], MaxSubjectLength := 50\<rparr>"
  have wf: "wf_parsed ?p"
    by code_simp
  have r: "render ?p = ''feat: add new feature''"
    by code_simp
  have d: "description ?p = ''add new feature''"
    by code_simp
  have "LintSubject \<lparr>Config = Some ?cfg\<rparr> (render ?p) = Inr None"
    by (rule compliant_subject_no_violation [OF wf])
       (simp_all add: d zero_Config_def is_upper_def byte_in_def suffix_def)
  with wf show ?thesis unfolding r by simp
qed

text \<open>
  Two subjects that are compliant in the specification's reading and get a violation:
  \<open>"fix:  Add"\<close>, whose remainder starts with a space and whose trimmed remainder starts
  with \<open>A\<close>, and \<open>"feat: add"\<close> under an \<open>AllowedTypes\<close> that is empty and not \<open>nil\<close>.
\<close>

theorem conditions_as_stated_do_not_suffice:
  "wf_parsed \<lparr>ps_type = ''fix'', ps_scope = [], ps_breaking = False, ps_remainder = '' Add''\<rparr> \<and>
   render \<lparr>ps_type = ''fix'', ps_scope = [], ps_breaking = False, ps_remainder = '' Add''\<rparr>
     = ''fix:  Add'' \<and>
   compliant_as_stated (zero_Config\<lparr>MaxSubjectLength := 72\<rparr>)
     \<lparr>ps_type = ''fix'', ps_scope = [], ps_breaking = False, ps_remainder = '' Add''\<rparr> \<and>
   LintSubject \<lparr>Config = Some (zero_Config\<lparr>MaxSubjectLength := 72\<rparr>)\<rparr> ''fix:  Add''
     = Inr (Some [''subject should start lowercase (imperative mood)'']) \<and>
   wf_parsed \<lparr>ps_type = ''feat'', ps_scope = [], ps_breaking = False, ps_remainder = ''add''\<rparr> \<and>
   render \<lparr>ps_type = ''feat'', ps_scope = [], ps_breaking = False, ps_remainder = ''add''\<rparr>
     = ''feat: add'' \<and>
   compliant_as_stated (zero_Config\<lparr>AllowedTypes := Some [], MaxSubjectLength := 72\<rparr>)
     \<lparr>ps_type = ''feat'', ps_scope = [], ps_breaking = False, ps_remainder = ''add''\<rparr> \<and>
   LintSubject \<lparr>Config = Some (zero_Config\<lparr>AllowedTypes := Some [], MaxSubjectLength := 72\<rparr>)\<rparr>
     ''feat: add'' = Inr (Some [''type 'feat' is not allowed. Allowed: ''])"
  by code_simp

text \<open>
  \<^bold>\<open>C9.\<close>  That \<open>LintSubject\<close> is deterministic and pure is not a theorem here.
  The function compiles the pattern and starts \<open>errors\<close> afresh in every call, reads its
  receiver's configuration and its argument, and assigns to nothing it did not create;
  on that reading of the source its model is a function of the linter and the subject.
  Equal arguments then give equal results for the reason they do for every function, and
  no statement about the model tells a pure \<open>LintSubject\<close> from one that reads or writes
  state the model does not have.  What the model does show is that a call with a
  configuration returns (\<open>LintSubject_returns\<close>).
\<close>

text \<open>
  \<^bold>\<open>C10.\<close>  The breaking-change marker changes nothing: a subject that matches the
  grammar gets the same result from every linter with the \<open>!\<close> before the colon as
  without it.
\<close>

theorem breaking_marker_has_no_effect:
  assumes "wf_parsed p"
  shows "LintSubject l (render (p\<lparr>ps_breaking := True\<rparr>)) =
         LintSubject l (render (p\<lparr>ps_breaking := False\<rparr>))"
proof -
  let ?t = "p\<lparr>ps_breaking := True\<rparr>" and ?f = "p\<lparr>ps_breaking := False\<rparr>"
  from assms have "wf_parsed ?t" and "wf_parsed ?f"
    by (simp_all add: wf_parsed_def)
  then have parsed: "parse_subject (render ?t) = Some ?t" "parse_subject (render ?f) = Some ?f"
    by (simp_all add: parse_subject_render)
  have same: "violations cfg ?t = violations cfg ?f" for cfg
    by (simp add: violations_chain description_def)
  obtain c where l: "l = \<lparr>Config = c\<rparr>"
    by (cases l) simp
  show ?thesis
  proof (cases c)
    case None
    with l parsed show ?thesis
      by (simp add: LintSubject_nil_config)
  next
    case (Some cfg)
    with l parsed same show ?thesis
      by (simp add: LintSubject_parsed)
  qed
qed

theorem breaking_marker_has_no_effect_witness:
  "wf_parsed \<lparr>ps_type = ''refactor'', ps_scope = ''parser'', ps_breaking = True,
      ps_remainder = ''simplify the logic''\<rparr> \<and>
   LintSubject \<lparr>Config = Some (zero_Config\<lparr>AllowedTypes := Some [''refactor''], MaxSubjectLength := 50\<rparr>)\<rparr>
     ''refactor(parser)!: simplify the logic'' =
   LintSubject \<lparr>Config = Some (zero_Config\<lparr>AllowedTypes := Some [''refactor''], MaxSubjectLength := 50\<rparr>)\<rparr>
     ''refactor(parser): simplify the logic''"
proof -
  let ?p = "\<lparr>ps_type = ''refactor'', ps_scope = ''parser'', ps_breaking = True,
      ps_remainder = ''simplify the logic''\<rparr>"
  have wf: "wf_parsed ?p"
    by code_simp
  have r: "render (?p\<lparr>ps_breaking := True\<rparr>) = ''refactor(parser)!: simplify the logic''"
    "render (?p\<lparr>ps_breaking := False\<rparr>) = ''refactor(parser): simplify the logic''"
    by code_simp+
  from breaking_marker_has_no_effect [OF wf] wf show ?thesis
    unfolding r by simp
qed

end
